theory Spec2Isabelle
  imports Complex_Main
begin

section \<open>JavaScript strings and regular expressions\<close>

text \<open>
  A JavaScript string is a sequence of UTF-16 code units. The model takes the texts whose
  code units are below 256, one \<^typ>\<open>char\<close> per code unit (the Latin-1 range), and
  JavaScript numbers as real numbers (IEEE rounding error is not modelled).
\<close>

definition code :: "char \<Rightarrow> int" where
  "code c = of_char c"

text \<open>\<^verbatim>\<open>\s\<close> and the characters \<^verbatim>\<open>trim\<close> strips: TAB, LF, VT, FF, CR, space, NBSP.\<close>

definition is_space :: "char \<Rightarrow> bool" where
  "is_space c = (code c \<in> {9, 10, 11, 12, 13, 32, 160})"

text \<open>\<^verbatim>\<open>\w\<close> is \<^verbatim>\<open>[A-Za-z0-9_]\<close>.\<close>

definition is_word :: "char \<Rightarrow> bool" where
  "is_word c = (let n = code c in
     (65 \<le> n \<and> n \<le> 90) \<or> (97 \<le> n \<and> n \<le> 122) \<or> (48 \<le> n \<and> n \<le> 57) \<or> n = 95)"

text \<open>\<^verbatim>\<open>.\<close> matches everything but the line terminators LF and CR.\<close>

definition is_dot :: "char \<Rightarrow> bool" where
  "is_dot c = (code c \<noteq> 10 \<and> code c \<noteq> 13)"

definition lower_char :: "char \<Rightarrow> char" where
  "lower_char c = (let n = code c in
     if (65 \<le> n \<and> n \<le> 90) \<or> (192 \<le> n \<and> n \<le> 222 \<and> n \<noteq> 215)
     then char_of (n + 32) else c)"

definition toLowerCase :: "string \<Rightarrow> string" where
  "toLowerCase s = map lower_char s"

definition trim :: "string \<Rightarrow> string" where
  "trim s = rev (dropWhile is_space (rev (dropWhile is_space s)))"

fun startsWith :: "string \<Rightarrow> string \<Rightarrow> bool" where
  "startsWith s [] = True"
| "startsWith [] (p # ps) = False"
| "startsWith (c # cs) (p # ps) = (c = p \<and> startsWith cs ps)"

fun str_includes :: "string \<Rightarrow> string \<Rightarrow> bool" where
  "str_includes [] sub = (sub = [])"
| "str_includes (c # cs) sub = (startsWith (c # cs) sub \<or> str_includes cs sub)"

subsection \<open>A backtracking matcher\<close>

text \<open>
  The regular expressions of the source are data. \<open>Grp\<close> is capture group 1 (no
  expression of the source reads another group, and a group that is never read is
  left unmarked), \<open>Backref\<close> is \<^verbatim>\<open>\1\<close>,
  \<open>WordB\<close> is \<^verbatim>\<open>\b\<close>, \<open>Bol\<close> and \<open>Eol\<close> are \<^verbatim>\<open>^\<close> and \<^verbatim>\<open>$\<close>.
  A configuration is the code unit before the current position, the rest of the input
  and the text captured by group 1. \<open>run\<close> lists the configurations after a match in
  the order in which a backtracking matcher tries them (greedy repetition, alternatives
  left to right), so that the head of the list is the match JavaScript reports.
\<close>

datatype rx =
    Eps
  | Pred "char \<Rightarrow> bool"
  | Lit char
  | Seq rx rx
  | Alt rx rx
  | Star rx
  | WordB
  | Bol
  | Eol
  | Grp rx
  | Backref

type_synonym cfg = "char option \<times> string \<times> string option"

definition rest :: "cfg \<Rightarrow> string" where
  "rest c = fst (snd c)"

text \<open>With the flag \<^verbatim>\<open>i\<close> two code units below 256 match when they agree up to case.\<close>

definition chr_eq :: "bool \<Rightarrow> char \<Rightarrow> char \<Rightarrow> bool" where
  "chr_eq ci x a = (if ci then lower_char x = lower_char a else x = a)"

fun str_eq :: "bool \<Rightarrow> string \<Rightarrow> string \<Rightarrow> bool" where
  "str_eq ci [] [] = True"
| "str_eq ci (x # xs) (a # as) = (chr_eq ci x a \<and> str_eq ci xs as)"
| "str_eq ci _ _ = False"

fun word_opt :: "char option \<Rightarrow> bool" where
  "word_opt None = False"
| "word_opt (Some c) = is_word c"

definition at_boundary :: "char option \<Rightarrow> string \<Rightarrow> bool" where
  "at_boundary pv s = (word_opt pv \<noteq> word_opt (case s of [] \<Rightarrow> None | x # _ \<Rightarrow> Some x))"

definition last_opt :: "char option \<Rightarrow> string \<Rightarrow> char option" where
  "last_opt pv w = (if w = [] then pv else Some (last w))"

function run :: "bool \<Rightarrow> rx \<Rightarrow> cfg \<Rightarrow> cfg list" where
  "run ci Eps c = [c]"
| "run ci (Pred p) c =
     (case rest c of [] \<Rightarrow> []
      | x # xs \<Rightarrow> if p x then [(Some x, xs, snd (snd c))] else [])"
| "run ci (Lit a) c =
     (case rest c of [] \<Rightarrow> []
      | x # xs \<Rightarrow> if chr_eq ci x a then [(Some x, xs, snd (snd c))] else [])"
| "run ci (Seq a b) c = concat (map (run ci b) (run ci a c))"
| "run ci (Alt a b) c = run ci a c @ run ci b c"
| "run ci (Star r) c =
     concat (map (run ci (Star r))
       (filter (\<lambda>c'. length (rest c') < length (rest c)) (run ci r c))) @ [c]"
| "run ci WordB c = (if at_boundary (fst c) (rest c) then [c] else [])"
| "run ci Bol c = (if fst c = None then [c] else [])"
| "run ci Eol c = (if rest c = [] then [c] else [])"
| "run ci (Grp r) c =
     map (\<lambda>c'. (fst c', rest c', Some (take (length (rest c) - length (rest c')) (rest c))))
       (run ci r c)"
| "run ci Backref c =
     (case snd (snd c) of None \<Rightarrow> [c]
      | Some w \<Rightarrow>
          if str_eq ci (take (length w) (rest c)) w
          then [(last_opt (fst c) w, drop (length w) (rest c), Some w)] else [])"
  by pat_completeness auto
termination
  by (relation "measures [\<lambda>(ci, r, c). size r, \<lambda>(ci, r, c). length (rest c)]") auto

declare run.simps [simp del]

text \<open>Derived forms: a literal string, \<^verbatim>\<open>r+\<close>, \<^verbatim>\<open>r?\<close>, an alternation of several.\<close>

fun Str :: "string \<Rightarrow> rx" where
  "Str [] = Eps"
| "Str (c # cs) = Seq (Lit c) (Str cs)"

definition Plus :: "rx \<Rightarrow> rx" where
  "Plus r = Seq r (Star r)"

definition Opt :: "rx \<Rightarrow> rx" where
  "Opt r = Alt r Eps"

fun Alts :: "rx list \<Rightarrow> rx" where
  "Alts [] = Pred (\<lambda>_. False)"
| "Alts [r] = r"
| "Alts (r # rs) = Alt r (Alts rs)"

definition Words :: "string list \<Rightarrow> rx" where
  "Words ws = Alts (map Str ws)"

text \<open>
  \<^verbatim>\<open>re.test(s)\<close>: the leftmost position at which the expression matches, if any.
\<close>

fun test_from :: "bool \<Rightarrow> rx \<Rightarrow> char option \<Rightarrow> string \<Rightarrow> bool" where
  "test_from ci r pv [] = (run ci r (pv, [], None) \<noteq> [])"
| "test_from ci r pv (x # xs) =
     (run ci r (pv, x # xs, None) \<noteq> [] \<or> test_from ci r (Some x) xs)"

definition test :: "bool \<Rightarrow> rx \<Rightarrow> string \<Rightarrow> bool" where
  "test ci r s = test_from ci r None s"

text \<open>
  \<^verbatim>\<open>s.replace(re, repl)\<close> with the flag \<^verbatim>\<open>g\<close>: every match, left to right, is
  replaced; after an empty match the next code unit is copied. The replacement is a
  text or \<^verbatim>\<open>$1\<close>.
\<close>

datatype repl = Txt string | Group1

fun expand :: "repl \<Rightarrow> string option \<Rightarrow> string" where
  "expand (Txt t) g = t"
| "expand Group1 None = []"
| "expand Group1 (Some w) = w"

function replace_from :: "bool \<Rightarrow> rx \<Rightarrow> repl \<Rightarrow> char option \<Rightarrow> string \<Rightarrow> string" where
  "replace_from ci r rp pv s =
     (case run ci r (pv, s, None) of
        [] \<Rightarrow> (case s of [] \<Rightarrow> [] | x # xs \<Rightarrow> x # replace_from ci r rp (Some x) xs)
      | c # _ \<Rightarrow>
          if length (rest c) < length s
          then expand rp (snd (snd c)) @ replace_from ci r rp (fst c) (rest c)
          else (case s of [] \<Rightarrow> expand rp (snd (snd c))
                | x # xs \<Rightarrow> expand rp (snd (snd c)) @ x # replace_from ci r rp (Some x) xs))"
  by pat_completeness auto
termination
  by (relation "measure (\<lambda>(ci, r, rp, pv, s). length s)") auto

declare replace_from.simps [simp del]

definition replace_all :: "bool \<Rightarrow> rx \<Rightarrow> repl \<Rightarrow> string \<Rightarrow> string" where
  "replace_all ci r rp s = replace_from ci r rp None s"

section \<open>Input cleaning and the cache key\<close>

text \<open>
  \<^verbatim>\<open>quickClean\<close> of inputCompressor.js. The first replacement deletes the code points
  of five emoji ranges; none of them is below 256.
\<close>

definition is_emoji :: "char \<Rightarrow> bool" where
  "is_emoji c = (let n = code c in
     (0x1F300 \<le> n \<and> n \<le> 0x1F9FF) \<or> (0x2600 \<le> n \<and> n \<le> 0x26FF) \<or>
     (0x2700 \<le> n \<and> n \<le> 0x27BF) \<or> (0x1F600 \<le> n \<and> n \<le> 0x1F64F) \<or>
     (0x1F680 \<le> n \<and> n \<le> 0x1F6FF))"

definition fillers :: "string list" where
  "fillers = [''um'', ''uh'', ''like'', ''basically'', ''literally'', ''actually'',
     ''you know'', ''i mean'']"

definition quickClean :: "string \<Rightarrow> string" where
  "quickClean text =
     (if text = [] then []
      else
        (let s1 = replace_all False (Pred is_emoji) (Txt []) text;
             s2 = replace_all False (Plus (Pred is_space)) (Txt '' '') s1;
             s3 = replace_all False
                    (Seq (Grp (Pred (\<lambda>c. c \<in> set ''!?.''))) (Plus Backref)) Group1 s2;
             s4 = replace_all True (Seq WordB (Seq (Words fillers) WordB)) (Txt []) s3;
             s5 = replace_all False
                    (Seq (Str ''http'') (Seq (Opt (Lit CHR ''s'')) (Seq (Str ''://'')
                      (Plus (Pred (\<lambda>c. \<not> is_space c))))))
                    (Txt ''[link]'') s4;
             s6 = replace_all True
                    (Seq WordB (Seq (Grp (Plus (Pred is_word)))
                      (Seq (Plus (Pred is_space)) (Seq Backref WordB))))
                    Group1 s5;
             s7 = replace_all False (Plus (Pred is_space)) (Txt '' '') s6
         in trim s7))"

text \<open>
  \<^verbatim>\<open>hashText\<close> of semanticCache.js hashes the normalized text with SHA-256. The digest
  is a parameter of the model; \<open>normalize\<close> is the text that is hashed.
\<close>

definition normalize :: "string \<Rightarrow> string" where
  "normalize text =
     replace_all False (Plus (Pred is_space)) (Txt '' '') (trim (toLowerCase text))"

definition hashText :: "(string \<Rightarrow> string) \<Rightarrow> string \<Rightarrow> string" where
  "hashText sha256 text = sha256 (normalize text)"

section \<open>truthfulnessSpectrum.js\<close>

subsection \<open>Personal statement detection\<close>

record detection =
  isPersonal :: bool
  reason :: string
  d_confidence :: nat

text \<open>A pattern is a regular expression with its flag \<^verbatim>\<open>i\<close>.\<close>

type_synonym pattern = "bool \<times> rx"

definition matches :: "pattern \<Rightarrow> string \<Rightarrow> bool" where
  "matches p s = test (fst p) (snd p) s"

definition anecdotalPatterns :: "pattern list" where
  "anecdotalPatterns = map (Pair True)
    [Seq Bol (Seq (Str ''my '') (Words [''girlfriend'', ''boyfriend'', ''wife'', ''husband'',
       ''partner'', ''friend'', ''mom'', ''dad'', ''mother'', ''father'', ''sister'',
       ''brother'', ''family'', ''dog'', ''cat'', ''boss'', ''coworker''])),
     Seq (Str ''my '') (Seq (Words [''girlfriend'', ''boyfriend'', ''wife'', ''husband'',
       ''partner'', ''mom'', ''dad'']) (Seq (Lit CHR '' '') (Seq (Star (Pred is_dot))
       (Words [''bought'', ''gave'', ''told'', ''asked'', ''showed'', ''sent'', ''made''])))),
     Seq Bol (Seq (Words [''i'', ''we'']) (Seq (Lit CHR '' '')
       (Words [''just'', ''recently'', ''finally'', ''actually'']))),
     Seq Bol (Seq (Str ''today '') (Words [''i'', ''we'', ''my''])),
     Seq Bol (Str ''today i''),
     Seq Bol (Seq (Str ''yesterday '') (Words [''i'', ''we'', ''my''])),
     Seq Bol (Seq (Str ''last '') (Seq (Words [''night'', ''week'', ''month'', ''year''])
       (Seq (Lit CHR '' '') (Words [''i'', ''we'', ''my''])))),
     Seq Bol (Seq (Words [''i'', ''we'']) (Seq (Lit CHR '' '')
       (Words [''went'', ''saw'', ''met'', ''had'', ''got'', ''made'', ''did'', ''tried'',
          ''bought'', ''found'', ''learned'', ''discovered'']))),
     Words [''told me'', ''asked me'', ''gave me'', ''bought me'', ''showed me'', ''sent me''],
     Seq Bol (Str ''so basically''),
     Seq Bol (Str ''you know what''),
     Seq Bol (Str ''guess what''),
     Seq Bol (Str ''i went to''),
     Seq Bol (Str ''i saw'')]"

definition feelings :: "string list" where
  "feelings = [''happy'', ''sad'', ''angry'', ''excited'', ''nervous'', ''anxious'', ''scared'',
     ''worried'', ''tired'', ''exhausted'', ''confused'', ''frustrated'', ''grateful'',
     ''thankful'', ''blessed'', ''lucky'']"

definition emotionalPatterns :: "pattern list" where
  "emotionalPatterns = map (Pair True)
    [Seq Bol (Seq (Str ''i'm '') (Seq (Opt (Words [''so '', ''really '', ''very '']))
       (Words feelings))),
     Seq Bol (Seq (Str ''i am '') (Seq (Opt (Words [''so '', ''really '', ''very '']))
       (Words feelings))),
     Seq Bol (Str ''i feel''),
     Seq Bol (Str ''i felt''),
     Seq (Lit CHR ''i'') (Seq (Words [CHR 0x27 # ''m'', '' am'']) (Str '' feeling'')),
     Words [''made my day'', ''broke my heart'', ''can't believe'', ''i love this'',
       ''i hate this'', ''i miss'', ''i wish''],
     Str ''this made my day'',
     Seq (Str ''feeling '') (Words [''good'', ''bad'', ''great'', ''terrible'', ''amazing'',
       ''awful'', ''sad'', ''happy'']),
     Seq Bol (Words [''omg'', ''oh my god'', ''wtf'', ''lol'', ''lmao'', ''haha'', ''bruh'',
       ''bro'', ''dude'']),
     Seq Bol (Str ''lol''),
     Seq Bol (Str ''haha''),
     Seq (Str ''i can'') (Seq (Opt (Lit (CHR 0x27))) (Str ''t believe''))]"

text \<open>
  The second expression is a class of the code units \<^verbatim>\<open>F0 178 2DC 201A A4 A3 2019 20AC AD\<close>
  and \<^verbatim>\<open>\s\<close>; the third a class of the code points \<^verbatim>\<open>1F300-1F9FF\<close> and \<^verbatim>\<open>\s\<close>.
\<close>

definition emoji_bytes :: "char \<Rightarrow> bool" where
  "emoji_bytes c = (code c \<in> {0xF0, 0x178, 0x2DC, 0x201A, 0xA4, 0xA3, 0x2019, 0x20AC, 0xAD}
     \<or> is_space c)"

definition emoji_or_space :: "char \<Rightarrow> bool" where
  "emoji_or_space c = ((0x1F300 \<le> code c \<and> code c \<le> 0x1F9FF) \<or> is_space c)"

definition nonClaimPatterns :: "pattern list" where
  "nonClaimPatterns =
    [(True, Seq Bol (Seq (Plus (Words [''lol'', ''lmao'', ''haha'', ''hehe''])) Eol)),
     (False, Seq Bol (Seq (Plus (Pred emoji_bytes)) Eol)),
     (False, Seq Bol (Seq (Star (Pred emoji_or_space)) Eol)),
     (False, Seq Bol (Seq (Star (Pred (\<lambda>c. \<not> is_word c))) Eol)),
     (True, Seq Bol (Words [''hi'', ''hey'', ''hello'', ''sup'', ''yo'', ''what's up''])),
     (True, Seq Bol (Words [''thanks'', ''thank you'', ''thx'', ''ty''])),
     (True, Seq Bol (Seq (Words [''ok'', ''okay'', ''k'', ''sure'', ''yeah'', ''yep'', ''nope'',
        ''nah'']) Eol)),
     (True, Seq Bol (Words [''good morning'', ''good night'', ''gn'', ''gm'']))]"

definition opinionPatterns :: "pattern list" where
  "opinionPatterns = map (Pair True)
    [Seq Bol (Str ''i think''),
     Seq Bol (Str ''i believe''),
     Seq Bol (Str ''in my opinion''),
     Seq Bol (Str ''imo''),
     Seq Bol (Str ''personally''),
     Seq Bol (Str ''i prefer''),
     Alt (Seq Bol (Str ''i like'')) (Alt (Str ''i love'') (Str ''i hate'')),
     Seq (Str ''is '') (Seq (Opt (Str ''the ''))
       (Words [''best'', ''worst'', ''overrated'', ''underrated''])),
     Seq Bol (Words [''do you think'', ''what do you think'', ''thoughts?''])]"

definition detectPersonalStatement :: "string \<Rightarrow> detection" where
  "detectPersonalStatement text =
     (if text = [] then \<lparr>isPersonal = True, reason = ''invalid input'', d_confidence = 100\<rparr>
      else
        (let lower = trim (toLowerCase text) in
         if length lower = 0
         then \<lparr>isPersonal = True, reason = ''empty input'', d_confidence = 100\<rparr>
         else if length lower < 10
         then \<lparr>isPersonal = True, reason = ''too short to be a factual claim'',
                 d_confidence = 80\<rparr>
         else if list_ex (\<lambda>p. matches p lower) anecdotalPatterns
         then \<lparr>isPersonal = True, reason = ''anecdotal/personal story'', d_confidence = 85\<rparr>
         else if list_ex (\<lambda>p. matches p lower) emotionalPatterns
         then \<lparr>isPersonal = True, reason = ''emotional expression'', d_confidence = 80\<rparr>
         else if list_ex (\<lambda>p. matches p lower) nonClaimPatterns
         then \<lparr>isPersonal = True, reason = ''non-factual content'', d_confidence = 90\<rparr>
         else if list_ex (\<lambda>p. matches p lower) opinionPatterns
         then \<lparr>isPersonal = True, reason = ''subjective opinion'', d_confidence = 75\<rparr>
         else \<lparr>isPersonal = False, reason = ''appears to be a factual claim'',
                 d_confidence = 70\<rparr>))"

subsection \<open>Truthfulness spectrum\<close>

text \<open>
  A response of a verifier as the scoring reads it. A field that the JSON of the
  verifier leaves out is \<open>None\<close>.
\<close>

record response =
  model :: string
  verdict :: "string option"
  confidence :: "real option"
  timedOut :: bool

definition VERDICT_SCORES :: "(string \<times> real) list" where
  "VERDICT_SCORES = [(''true'', 1.0), (''mostly_true'', 0.8), (''partially_true'', 0.5),
     (''mixed'', 0.5), (''unverifiable'', 0.35), (''mostly_false'', 0.2), (''false'', 0.0)]"

definition normalizeVerdict :: "string option \<Rightarrow> real" where
  "normalizeVerdict v =
     (case v of None \<Rightarrow> 0.35
      | Some vd \<Rightarrow>
          if vd = [] then 0.35
          else
            (let normalized =
                   replace_all False (Pred (\<lambda>c. c \<in> set ''_-'')) (Txt ''_'') (toLowerCase vd)
             in case map_of VERDICT_SCORES normalized of
                  Some x \<Rightarrow> x
                | None \<Rightarrow>
                    if str_includes normalized ''true'' \<and> \<not> str_includes normalized ''false''
                    then (if str_includes normalized ''partial'' \<or> str_includes normalized ''mixed''
                          then 0.5
                          else if str_includes normalized ''mostly'' then 0.8 else 1.0)
                    else if str_includes normalized ''false''
                    then (if str_includes normalized ''mostly'' then 0.2 else 0.0)
                    else 0.35))"

record breakdown_entry =
  b_model :: string
  b_verdict :: "string option"
  b_confidence :: real
  baseScore :: int
  weightedScore :: int

record spectrum =
  sp_score :: "int option"
  modelBreakdown :: "breakdown_entry list"
  consensus :: string

text \<open>The loop of \<^verbatim>\<open>computeTruthfulnessSpectrum\<close> with its three accumulators.\<close>

fun spectrum_loop ::
  "response list \<Rightarrow> real \<Rightarrow> real \<Rightarrow> breakdown_entry list \<Rightarrow> real \<times> real \<times> breakdown_entry list"
where
  "spectrum_loop [] totalWeight weightedSum bd = (totalWeight, weightedSum, bd)"
| "spectrum_loop (r # rs) totalWeight weightedSum bd =
     (let conf = (case confidence r of None \<Rightarrow> 70 | Some c \<Rightarrow> c);
          base = normalizeVerdict (verdict r);
          weight = min 100 (max 0 conf) / 100;
          contribution = base * weight
      in spectrum_loop rs (totalWeight + weight) (weightedSum + contribution)
           (bd @ [\<lparr>b_model = model r, b_verdict = verdict r, b_confidence = conf,
                   baseScore = round (base * 100),
                   weightedScore = round (contribution * 100)\<rparr>]))"

definition consensus_of :: "int option \<Rightarrow> string" where
  "consensus_of fs =
     (case fs of None \<Rightarrow> ''unknown''
      | Some n \<Rightarrow> if n \<ge> 80 then ''true'' else if n \<ge> 60 then ''mostly_true''
                 else if n \<ge> 40 then ''mixed'' else if n \<ge> 20 then ''mostly_false''
                 else ''false'')"

definition computeTruthfulnessSpectrum :: "response list \<Rightarrow> spectrum" where
  "computeTruthfulnessSpectrum modelResponses =
     (if modelResponses = []
      then \<lparr>sp_score = None, modelBreakdown = [], consensus = ''unknown''\<rparr>
      else
        (case spectrum_loop modelResponses 0 0 [] of
           (totalWeight, weightedSum, bd) \<Rightarrow>
             (let finalScore =
                    (if totalWeight > 0 then Some (round (weightedSum / totalWeight * 100))
                     else None)
              in \<lparr>sp_score = finalScore, modelBreakdown = bd,
                   consensus = consensus_of finalScore\<rparr>)))"

definition getVerdictFromScore :: "int option \<Rightarrow> string" where
  "getVerdictFromScore sc =
     (case sc of None \<Rightarrow> ''UNKNOWN''
      | Some n \<Rightarrow> if n \<ge> 70 then ''TRUE'' else if n \<ge> 40 then ''MIXED'' else ''FALSE'')"

section \<open>ultraSpeed.js\<close>

subsection \<open>Scoring a bucket\<close>

record tier_result =
  t_score :: "int option"
  t_confidence :: real
  agreement :: bool
  breakdown :: "breakdown_entry list"

text \<open>
  The filter \<^verbatim>\<open>r.verdict && r.confidence\<close> keeps a response with a non-empty verdict
  and a confidence that is neither missing nor zero; \<open>coarse\<close> is the bucket of a verdict.
\<close>

definition truthy :: "response \<Rightarrow> bool" where
  "truthy r = ((case verdict r of None \<Rightarrow> False | Some v \<Rightarrow> v \<noteq> []) \<and>
               (case confidence r of None \<Rightarrow> False | Some c \<Rightarrow> c \<noteq> 0))"

definition coarse :: "string \<Rightarrow> int" where
  "coarse vd = (let v = toLowerCase vd in
     if str_includes v ''true'' then 100 else if str_includes v ''false'' then 0 else 50)"

definition bucket_scores :: "response list \<Rightarrow> int list" where
  "bucket_scores responses =
     List.map_filter (\<lambda>r. if truthy r then map_option coarse (verdict r) else None) responses"

text \<open>\<^verbatim>\<open>Math.max(...scores, 0)\<close> and \<^verbatim>\<open>Math.min(...scores, 100)\<close>.\<close>

definition maxScore :: "int list \<Rightarrow> int" where
  "maxScore scores = fold max scores 0"

definition minScore :: "int list \<Rightarrow> int" where
  "minScore scores = fold min scores 100"

definition computeBucketScore :: "response list \<Rightarrow> tier_result" where
  "computeBucketScore responses =
     (if length responses = 0
      then \<lparr>t_score = None, t_confidence = 0, agreement = False, breakdown = []\<rparr>
      else
        (let sp = computeTruthfulnessSpectrum responses;
             scores = bucket_scores responses;
             agr = (length scores > 0 \<and> maxScore scores - minScore scores \<le> 30);
             conf = (if sp_score sp \<noteq> None
                     then min 1 ((if agr then 0.92 else 0.75) * (real (length responses) / 3))
                     else 0)
         in \<lparr>t_score = sp_score sp, t_confidence = conf, agreement = agr,
              breakdown = modelBreakdown sp\<rparr>))"

subsection \<open>Delta verification and merging\<close>

definition SKIP_MID_THRESHOLD :: real where
  "SKIP_MID_THRESHOLD = 0.88"

definition SKIP_FULL_THRESHOLD :: real where
  "SKIP_FULL_THRESHOLD = 0.90"

definition shouldRunMidBucket :: "tier_result \<Rightarrow> bool" where
  "shouldRunMidBucket fastResult =
     (t_confidence fastResult < SKIP_MID_THRESHOLD \<or> \<not> agreement fastResult)"

definition shouldRunFullBucket :: "tier_result \<Rightarrow> tier_result option \<Rightarrow> bool" where
  "shouldRunFullBucket fastResult midResult =
     (case midResult of
        None \<Rightarrow> t_confidence fastResult < SKIP_FULL_THRESHOLD
      | Some mr \<Rightarrow>
          (let combinedConfidence = t_confidence fastResult * 0.4 + t_confidence mr * 0.6;
               bothAgree = (agreement fastResult \<and> agreement mr)
           in case (t_score fastResult, t_score mr) of
                (Some f, Some m) \<Rightarrow>
                  if \<bar>f - m\<bar> > 20 then True
                  else combinedConfidence < SKIP_FULL_THRESHOLD \<or> \<not> bothAgree
              | _ \<Rightarrow> combinedConfidence < SKIP_FULL_THRESHOLD \<or> \<not> bothAgree))"

record merged =
  m_score :: "int option"
  m_confidence :: real
  m_breakdown :: "breakdown_entry list"
  source :: string

text \<open>\<^verbatim>\<open>x && x.score !== null\<close>: the result of a bucket that ran and has a score.\<close>

fun scored :: "tier_result option \<Rightarrow> (tier_result \<times> int) option" where
  "scored None = None"
| "scored (Some r) = (case t_score r of None \<Rightarrow> None | Some sc \<Rightarrow> Some (r, sc))"

definition mergeResults ::
  "tier_result \<Rightarrow> tier_result option \<Rightarrow> tier_result option \<Rightarrow> merged" where
  "mergeResults fastResult midResult fullResult =
     (case scored fullResult of
        Some (fr, fs) \<Rightarrow>
          \<lparr>m_score = Some fs, m_confidence = t_confidence fr, m_breakdown = breakdown fr,
           source = ''full''\<rparr>
      | None \<Rightarrow>
          (case scored midResult of
             Some (mr, ms) \<Rightarrow>
               \<lparr>m_score = Some (round
                  (real_of_int (case t_score fastResult of None \<Rightarrow> 0 | Some f \<Rightarrow> f) * 0.3
                   + real_of_int ms * 0.7)),
                m_confidence = t_confidence fastResult * 0.3 + t_confidence mr * 0.7,
                m_breakdown = breakdown fastResult @ breakdown mr,
                source = ''mid''\<rparr>
           | None \<Rightarrow>
               \<lparr>m_score = t_score fastResult, m_confidence = t_confidence fastResult,
                m_breakdown = breakdown fastResult, source = ''fast''\<rparr>))"

subsection \<open>Running a bucket\<close>

text \<open>
  A verifier is an external service. What a call does is an input of the model: it answers
  with a verdict and a confidence, it is still pending when the timer of the bucket fires,
  or the request fails. Each of the four verifier functions wraps a failure in an error
  whose message starts with the name of its provider.
\<close>

datatype provider = OpenAI | Anthropic | Google | Perplexity

datatype call_outcome = Answered "string option" "real option" | Slow | Threw string

fun provider_name :: "provider \<Rightarrow> string" where
  "provider_name OpenAI = ''OpenAI''"
| "provider_name Anthropic = ''Anthropic''"
| "provider_name Google = ''Google''"
| "provider_name Perplexity = ''Perplexity''"

definition error_message :: "provider \<Rightarrow> string \<Rightarrow> string" where
  "error_message p inner =
     provider_name p @ '' failed: '' @ (if inner = [] then ''Unknown error'' else inner)"

datatype bucket_name = FAST | MID | FULL

record model_desc =
  name :: string
  fn :: provider
  weight :: real

record bucket =
  timeout :: nat
  b_weight :: real
  models :: "model_desc list"

fun MODEL_BUCKETS :: "bucket_name \<Rightarrow> bucket" where
  "MODEL_BUCKETS FAST = \<lparr>timeout = 1500, b_weight = 0.8, models =
     [\<lparr>name = ''GPT-4o-mini'', fn = OpenAI, weight = 1.0\<rparr>,
      \<lparr>name = ''Gemini-Flash'', fn = Google, weight = 1.0\<rparr>,
      \<lparr>name = ''Perplexity-Lite'', fn = Perplexity, weight = 0.9\<rparr>]\<rparr>"
| "MODEL_BUCKETS MID = \<lparr>timeout = 3500, b_weight = 1.0, models =
     [\<lparr>name = ''GPT-4o'', fn = OpenAI, weight = 1.1\<rparr>,
      \<lparr>name = ''Gemini-Pro'', fn = Google, weight = 1.0\<rparr>]\<rparr>"
| "MODEL_BUCKETS FULL = \<lparr>timeout = 10000, b_weight = 1.2, models =
     [\<lparr>name = ''GPT-4o-Full'', fn = OpenAI, weight = 1.2\<rparr>,
      \<lparr>name = ''Claude-Sonnet'', fn = Anthropic, weight = 1.3\<rparr>,
      \<lparr>name = ''Gemini-Full'', fn = Google, weight = 1.1\<rparr>,
      \<lparr>name = ''Perplexity-Full'', fn = Perplexity, weight = 1.0\<rparr>]\<rparr>"

text \<open>
  \<^verbatim>\<open>runWithTimeout\<close>: the race of the call against the timer. The timer rejects with
  the message \<^verbatim>\<open>TIMEOUT\<close>; the handler tells the two rejections apart by the message.
\<close>

datatype call_result = Success response | Failure string string

definition on_error :: "string \<Rightarrow> string \<Rightarrow> call_result" where
  "on_error modelName msg =
     (if msg = ''TIMEOUT''
      then Success \<lparr>model = modelName, verdict = Some ''unverifiable'', confidence = Some 25,
                     timedOut = True\<rparr>
      else Failure modelName msg)"

definition runWithTimeout :: "provider \<Rightarrow> call_outcome \<Rightarrow> string \<Rightarrow> call_result" where
  "runWithTimeout modelFn outcome modelName =
     (case outcome of
        Answered v c \<Rightarrow>
          Success \<lparr>model = modelName, verdict = v, confidence = c, timedOut = False\<rparr>
      | Slow \<Rightarrow> on_error modelName ''TIMEOUT''
      | Threw inner \<Rightarrow> on_error modelName (error_message modelFn inner))"

type_synonym verifiers = "bucket_name \<Rightarrow> string \<Rightarrow> string \<Rightarrow> call_outcome"

record bucket_run =
  bucket_of :: bucket_name
  responses :: "response list"
  modelCount :: nat
  totalModels :: nat

fun successes :: "call_result list \<Rightarrow> response list" where
  "successes [] = []"
| "successes (Success r # rs) = r # successes rs"
| "successes (Failure m e # rs) = successes rs"

text \<open>The text a bucket sends: the compressed text for the slower buckets, if there is one.\<close>

definition inputText :: "bucket_name \<Rightarrow> string \<Rightarrow> string option \<Rightarrow> string" where
  "inputText bucketName text compressedText =
     (case compressedText of
        None \<Rightarrow> text
      | Some ct \<Rightarrow> if bucketName \<noteq> FAST \<and> ct \<noteq> [] then ct else text)"

definition runBucket :: "verifiers \<Rightarrow> bucket_name \<Rightarrow> string \<Rightarrow> string option \<Rightarrow> bucket_run" where
  "runBucket call bucketName text compressedText =
     (let b = MODEL_BUCKETS bucketName;
          input = inputText bucketName text compressedText;
          results = map (\<lambda>m. runWithTimeout (fn m) (call bucketName (name m) input) (name m))
                      (models b);
          rs = successes results
      in \<lparr>bucket_of = bucketName, responses = rs, modelCount = length rs,
           totalModels = length (models b)\<rparr>)"

section \<open>semanticCache.js\<close>

text \<open>
  The outcome of the pipeline. The record keeps the fields that scoring, skipping and
  caching decide; the message texts, the latencies and the list of sources are left out.
\<close>

record pipeline_result =
  mode :: string
  claim :: string
  score :: "int option"
  p_confidence :: "real option"
  loraVerdict :: "string option"
  p_reason :: "string option"
  usedFast :: "string list"
  usedMid :: "string list"
  usedFull :: "string list"
  spectrumBreakdown :: "breakdown_entry list"
  skippedAll :: bool
  skippedMid :: bool
  skippedFull :: bool
  p_source :: "string option"
  fromCache :: bool
  cacheType :: "string option"
  cacheSimilarity :: "real option"

record exact_entry =
  e_data :: pipeline_result
  e_timestamp :: int

record semantic_entry =
  embedding :: "real list"
  s_data :: pipeline_result
  s_timestamp :: int
  s_text :: string

text \<open>
  The three stores of the module. A JavaScript \<^verbatim>\<open>Map\<close> is a list of pairs with distinct
  keys, in insertion order.
\<close>

record caches =
  exactCache :: "(string \<times> exact_entry) list"
  semanticCache :: "semantic_entry list"
  embeddingCache :: "(string \<times> real list) list"

definition EXACT_CACHE_TTL :: int where
  "EXACT_CACHE_TTL = 10 * 60 * 1000"

definition SEMANTIC_CACHE_TTL :: int where
  "SEMANTIC_CACHE_TTL = 24 * 60 * 60 * 1000"

definition SIMILARITY_THRESHOLD :: real where
  "SIMILARITY_THRESHOLD = 0.93"

definition MAX_SEMANTIC_ENTRIES :: nat where
  "MAX_SEMANTIC_ENTRIES = 1000"

fun map_set :: "'k \<Rightarrow> 'v \<Rightarrow> ('k \<times> 'v) list \<Rightarrow> ('k \<times> 'v) list" where
  "map_set k v [] = [(k, v)]"
| "map_set k v ((k', v') # kvs) = (if k = k' then (k, v) # kvs else (k', v') # map_set k v kvs)"

text \<open>
  The world outside the pipeline: the calls to the verifiers, the embedding service
  (\<open>None\<close> when there is no client, the request fails or the reply has no vector), the
  local compression of long inputs, the digest, and the clock at the four points where
  the pipeline reads it.
\<close>

record env =
  call :: verifiers
  embeddings :: "string \<Rightarrow> real list option"
  compress :: "string \<Rightarrow> string"
  sha256 :: "string \<Rightarrow> string"
  now_exact :: int
  now_semantic_exact :: int
  now_semantic :: int
  now_store :: int

definition getEmbedding :: "env \<Rightarrow> caches \<Rightarrow> string \<Rightarrow> real list option \<times> caches" where
  "getEmbedding ev st text =
     (let hash = hashText (sha256 ev) text in
      case map_of (embeddingCache st) hash of
        Some cached \<Rightarrow> (Some cached, st)
      | None \<Rightarrow>
          (case embeddings ev (take 8000 text) of
             None \<Rightarrow> (None, st)
           | Some v \<Rightarrow>
               (let ec = map_set hash v (embeddingCache st);
                    ec' = (if length ec > 5000 then tl ec else ec)
                in (Some v, st\<lparr>embeddingCache := ec'\<rparr>))))"

text \<open>The loop of \<^verbatim>\<open>cosineSimilarity\<close> with its three accumulators.\<close>

fun cosine_loop :: "real list \<Rightarrow> real list \<Rightarrow> real \<Rightarrow> real \<Rightarrow> real \<Rightarrow> real \<times> real \<times> real" where
  "cosine_loop (x # xs) (y # ys) dotProduct normA normB =
     cosine_loop xs ys (dotProduct + x * y) (normA + x * x) (normB + y * y)"
| "cosine_loop _ _ dotProduct normA normB = (dotProduct, normA, normB)"

definition cosineSimilarity :: "real list option \<Rightarrow> real list option \<Rightarrow> real" where
  "cosineSimilarity a b =
     (case (a, b) of
        (Some xs, Some ys) \<Rightarrow>
          if length xs \<noteq> length ys then 0
          else
            (case cosine_loop xs ys 0 0 0 of
               (dotProduct, normA, normB) \<Rightarrow>
                 if sqrt normA = 0 \<or> sqrt normB = 0 then 0
                 else dotProduct / (sqrt normA * sqrt normB))
      | _ \<Rightarrow> 0)"

text \<open>\<^verbatim>\<open>checkExactCache\<close>: the cached result on a hit, \<open>None\<close> on a miss.\<close>

definition checkExactCache :: "(string \<Rightarrow> string) \<Rightarrow> int \<Rightarrow> caches \<Rightarrow> string \<Rightarrow> pipeline_result option" where
  "checkExactCache sha now st text =
     (case map_of (exactCache st) (hashText sha text) of
        None \<Rightarrow> None
      | Some entry \<Rightarrow> if now - e_timestamp entry < EXACT_CACHE_TTL then Some (e_data entry)
                      else None)"

datatype lookup =
    Miss
  | ExactHit pipeline_result
  | SemanticHit real pipeline_result string

text \<open>The scan for the best match, with \<^verbatim>\<open>bestMatch\<close> and \<^verbatim>\<open>bestSimilarity\<close>.\<close>

fun best_match ::
  "real list \<Rightarrow> semantic_entry list \<Rightarrow> semantic_entry option \<Rightarrow> real \<Rightarrow> semantic_entry option \<times> real"
where
  "best_match q [] bestMatch bestSimilarity = (bestMatch, bestSimilarity)"
| "best_match q (entry # es) bestMatch bestSimilarity =
     (let similarity = cosineSimilarity (Some q) (Some (embedding entry)) in
      if similarity > bestSimilarity \<and> similarity \<ge> SIMILARITY_THRESHOLD
      then best_match q es (Some entry) similarity
      else best_match q es bestMatch bestSimilarity)"

definition checkSemanticCache :: "env \<Rightarrow> caches \<Rightarrow> string \<Rightarrow> lookup \<times> caches" where
  "checkSemanticCache ev st text =
     (case checkExactCache (sha256 ev) (now_semantic_exact ev) st text of
        Some d \<Rightarrow> (ExactHit d, st)
      | None \<Rightarrow>
          (case getEmbedding ev st text of
             (None, st1) \<Rightarrow> (Miss, st1)
           | (Some q, st1) \<Rightarrow>
               (let live = filter (\<lambda>e. now_semantic ev - s_timestamp e < SEMANTIC_CACHE_TTL)
                             (semanticCache st1);
                    st2 = st1\<lparr>semanticCache := live\<rparr>
                in case best_match q live None 0 of
                     (Some entry, bestSimilarity) \<Rightarrow>
                       (SemanticHit bestSimilarity (s_data entry) (s_text entry), st2)
                   | (None, _) \<Rightarrow> (Miss, st2))))"

text \<open>\<^verbatim>\<open>findIndex\<close>: the first index at which the predicate holds.\<close>

fun findIndex :: "('a \<Rightarrow> bool) \<Rightarrow> 'a list \<Rightarrow> nat option" where
  "findIndex P [] = None"
| "findIndex P (x # xs) = (if P x then Some 0 else map_option Suc (findIndex P xs))"

definition cacheResult ::
  "env \<Rightarrow> caches \<Rightarrow> string \<Rightarrow> pipeline_result \<Rightarrow> real list option \<Rightarrow> caches" where
  "cacheResult ev st text d emb =
     (let hash = hashText (sha256 ev) text;
          ts = now_store ev;
          ex = map_set hash \<lparr>e_data = d, e_timestamp = ts\<rparr> (exactCache st);
          ex' = (if length ex > 5000
                 then filter (\<lambda>(k, entry). \<not> (ts - e_timestamp entry > EXACT_CACHE_TTL)) ex
                 else ex);
          st1 = st\<lparr>exactCache := ex'\<rparr>
      in case (case emb of None \<Rightarrow> getEmbedding ev st1 text | Some v \<Rightarrow> (Some v, st1)) of
           (None, st2) \<Rightarrow> st2
         | (Some v, st2) \<Rightarrow>
             (let new = \<lparr>embedding = v, s_data = d, s_timestamp = ts, s_text = text\<rparr> in
              case findIndex (\<lambda>e. cosineSimilarity (Some v) (Some (embedding e)) > 0.98)
                     (semanticCache st2) of
                Some i \<Rightarrow> st2\<lparr>semanticCache := (semanticCache st2)[i := new]\<rparr>
              | None \<Rightarrow>
                  (let sc = semanticCache st2 @ [new] in
                   st2\<lparr>semanticCache :=
                     (if length sc > MAX_SEMANTIC_ENTRIES
                      then take MAX_SEMANTIC_ENTRIES (sort_key (\<lambda>e. - s_timestamp e) sc)
                      else sc)\<rparr>)))"

section \<open>The pipeline\<close>

text \<open>
  What a request does to the outside, in order: the lookups in the cache, the launch of
  the embedding and of the source search, the compression, every call to a verifier
  (bucket, model, text), and the write to the cache.
\<close>

datatype event =
    ExactLookup string
  | SemanticLookup string
  | EmbeddingStart string
  | SourceSearch string
  | Compression string
  | VerifierCall bucket_name string string
  | CacheWrite string

definition COMPRESS_THRESHOLD :: nat where
  "COMPRESS_THRESHOLD = 300"

definition calls :: "bucket_name \<Rightarrow> string \<Rightarrow> string option \<Rightarrow> event list" where
  "calls bucketName text compressedText =
     map (\<lambda>m. VerifierCall bucketName (name m) (inputText bucketName text compressedText))
       (models (MODEL_BUCKETS bucketName))"

record tiers =
  fastResult :: tier_result
  midResult :: "tier_result option"
  fullResult :: "tier_result option"
  tierFast :: "string list"
  tierMid :: "string list"
  tierFull :: "string list"
  skipMid :: bool
  skipFull :: bool
  tierEvents :: "event list"

text \<open>Steps 4 to 7 of \<^verbatim>\<open>ultraSpeedCheck\<close>: the FAST bucket, the two gates, MID and FULL.\<close>

definition run_tiers :: "verifiers \<Rightarrow> string \<Rightarrow> string \<Rightarrow> tiers" where
  "run_tiers vcall cleanedText compressedText =
     (let fastBucket = runBucket vcall FAST cleanedText None;
          fr = computeBucketScore (responses fastBucket);
          ev1 = calls FAST cleanedText None
      in if \<not> shouldRunMidBucket fr
         then \<lparr>fastResult = fr, midResult = None, fullResult = None,
                tierFast = map model (responses fastBucket), tierMid = [], tierFull = [],
                skipMid = True, skipFull = True, tierEvents = ev1\<rparr>
         else
           (let midBucket = runBucket vcall MID cleanedText (Some compressedText);
                mr = computeBucketScore (responses midBucket);
                ev2 = ev1 @ calls MID cleanedText (Some compressedText)
            in if \<not> shouldRunFullBucket fr (Some mr)
               then \<lparr>fastResult = fr, midResult = Some mr, fullResult = None,
                      tierFast = map model (responses fastBucket),
                      tierMid = map model (responses midBucket), tierFull = [],
                      skipMid = False, skipFull = True, tierEvents = ev2\<rparr>
               else
                 (let fullBucket = runBucket vcall FULL cleanedText (Some compressedText);
                      fullr = computeBucketScore (responses fullBucket)
                  in \<lparr>fastResult = fr, midResult = Some mr, fullResult = Some fullr,
                       tierFast = map model (responses fastBucket),
                       tierMid = map model (responses midBucket),
                       tierFull = map model (responses fullBucket),
                       skipMid = False, skipFull = False,
                       tierEvents = ev2 @ calls FULL cleanedText (Some compressedText)\<rparr>)))"

definition personal_result :: "string \<Rightarrow> string \<Rightarrow> pipeline_result" where
  "personal_result text why =
     \<lparr>mode = ''personal'', claim = text, score = None, p_confidence = None,
      loraVerdict = None, p_reason = Some why, usedFast = [], usedMid = [], usedFull = [],
      spectrumBreakdown = [], skippedAll = True, skippedMid = False, skippedFull = False,
      p_source = None, fromCache = False, cacheType = None, cacheSimilarity = None\<rparr>"

definition fresh_result :: "string \<Rightarrow> tiers \<Rightarrow> pipeline_result" where
  "fresh_result text t =
     (let mg = mergeResults (fastResult t) (midResult t) (fullResult t) in
      \<lparr>mode = ''fact_check'', claim = text, score = m_score mg,
       p_confidence = Some (m_confidence mg),
       loraVerdict = Some (getVerdictFromScore (m_score mg)), p_reason = None,
       usedFast = tierFast t, usedMid = tierMid t, usedFull = tierFull t,
       spectrumBreakdown = m_breakdown mg, skippedAll = False, skippedMid = skipMid t,
       skippedFull = skipFull t, p_source = Some (source mg), fromCache = False,
       cacheType = None, cacheSimilarity = None\<rparr>)"

text \<open>
  \<^verbatim>\<open>ultraSpeedCheck\<close>: the result, what the request did, and the stores afterwards.
\<close>

definition ultraSpeedCheck :: "env \<Rightarrow> caches \<Rightarrow> string \<Rightarrow> pipeline_result \<times> event list \<times> caches" where
  "ultraSpeedCheck ev st text =
     (let personalCheck = detectPersonalStatement text in
      if isPersonal personalCheck
      then (personal_result text (reason personalCheck), [], st)
      else
        (let cleanedText = quickClean text in
         case checkExactCache (sha256 ev) (now_exact ev) st cleanedText of
           Some d \<Rightarrow>
             (d\<lparr>fromCache := True, cacheType := Some ''exact''\<rparr>, [ExactLookup cleanedText], st)
         | None \<Rightarrow>
             (case checkSemanticCache ev st cleanedText of
                (ExactHit d, st1) \<Rightarrow>
                  (d\<lparr>fromCache := True, cacheType := Some ''semantic'', cacheSimilarity := None\<rparr>,
                   [ExactLookup cleanedText, SemanticLookup cleanedText], st1)
              | (SemanticHit sim d t, st1) \<Rightarrow>
                  (d\<lparr>fromCache := True, cacheType := Some ''semantic'',
                     cacheSimilarity := Some sim\<rparr>,
                   [ExactLookup cleanedText, SemanticLookup cleanedText], st1)
              | (Miss, st1) \<Rightarrow>
                  (case getEmbedding ev st1 cleanedText of
                     (emb, st2) \<Rightarrow>
                       (let compressedText =
                              (if length cleanedText > COMPRESS_THRESHOLD
                               then compress ev cleanedText else cleanedText);
                            t = run_tiers (call ev) cleanedText compressedText;
                            result = fresh_result text t
                        in (result,
                            [ExactLookup cleanedText, SemanticLookup cleanedText,
                             EmbeddingStart cleanedText, SourceSearch cleanedText]
                            @ (if length cleanedText > COMPRESS_THRESHOLD
                               then [Compression cleanedText] else [])
                            @ tierEvents t @ [CacheWrite cleanedText],
                            cacheResult ev st2 cleanedText result emb))))))"

section \<open>Concrete inputs\<close>

definition answer :: "string \<Rightarrow> string \<Rightarrow> real \<Rightarrow> response" where
  "answer m v c = \<lparr>model = m, verdict = Some v, confidence = Some c, timedOut = False\<rparr>"

text \<open>The FULL bucket with four answers \<^verbatim>\<open>true\<close> at confidence 90.\<close>

definition four_true :: "response list" where
  "four_true = [answer ''GPT-4o-Full'' ''true'' 90, answer ''Claude-Sonnet'' ''true'' 90,
     answer ''Gemini-Full'' ''true'' 90, answer ''Perplexity-Full'' ''true'' 90]"

text \<open>The MID bucket with two answers \<^verbatim>\<open>true\<close> at confidence 90.\<close>

definition two_true :: "response list" where
  "two_true = [answer ''GPT-4o'' ''true'' 90, answer ''Gemini-Pro'' ''true'' 90]"




text \<open>An answer \<^verbatim>\<open>true\<close> at confidence 90 and an answer \<^verbatim>\<open>false\<close> at confidence 0.\<close>

definition split_zero :: "response list" where
  "split_zero = [answer ''GPT-4o-mini'' ''true'' 90, answer ''Gemini-Flash'' ''false'' 0]"

text \<open>An answer \<^verbatim>\<open>true\<close> and an answer \<^verbatim>\<open>partially_true\<close>, both at confidence 90.\<close>

definition true_partial :: "response list" where
  "true_partial = [answer ''GPT-4o-mini'' ''true'' 90, answer ''Gemini-Flash'' ''partially_true'' 90]"

text \<open>
  Calls of which the first verifier of a bucket answers \<^verbatim>\<open>true\<close> at 90, the second
  is slow and every other one fails.
\<close>

definition mixed_calls :: verifiers where
  "mixed_calls b m t =
     (if m \<in> {''GPT-4o-mini'', ''GPT-4o'', ''GPT-4o-Full''} then Answered (Some ''true'') (Some 90)
      else if m \<in> {''Gemini-Flash'', ''Gemini-Pro'', ''Claude-Sonnet''} then Slow
      else Threw ''fetch failed'')"

definition synthesized :: "string \<Rightarrow> response" where
  "synthesized m = \<lparr>model = m, verdict = Some ''unverifiable'', confidence = Some 25,
     timedOut = True\<rparr>"

text \<open>
  A world in which no verifier answers in time and the embedding service returns a fixed
  unit vector, and stores that hold one semantic entry at cosine similarity 0.93 to it.
\<close>

definition slow_env :: env where
  "slow_env = \<lparr>call = (\<lambda>b m t. Slow), embeddings = (\<lambda>t. Some [1, 0, 0, 0, 0]),
     compress = (\<lambda>t. t), sha256 = (\<lambda>t. t), now_exact = 1000, now_semantic_exact = 1000,
     now_semantic = 1000, now_store = 2000\<rparr>"

definition cached_result :: pipeline_result where
  "cached_result = \<lparr>mode = ''fact_check'', claim = ''water boils at 100 degrees'',
     score = Some 100, p_confidence = Some 0.92, loraVerdict = Some ''TRUE'', p_reason = None,
     usedFast = [''GPT-4o-mini'', ''Gemini-Flash'', ''Perplexity-Lite''], usedMid = [],
     usedFull = [], spectrumBreakdown = [], skippedAll = False, skippedMid = True,
     skippedFull = True, p_source = Some ''fast'', fromCache = False, cacheType = None,
     cacheSimilarity = None\<rparr>"

definition near_entry :: semantic_entry where
  "near_entry = \<lparr>embedding = [93, 35, 11, 2, 1], s_data = cached_result, s_timestamp = 0,
     s_text = ''water boils at 100 degrees''\<rparr>"

definition one_entry :: caches where
  "one_entry = \<lparr>exactCache = [], semanticCache = [near_entry], embeddingCache = []\<rparr>"

definition no_entries :: caches where
  "no_entries = \<lparr>exactCache = [], semanticCache = [], embeddingCache = []\<rparr>"

text \<open>The FAST bucket when each of its three calls timed out.\<close>

definition all_slow :: "response list" where
  "all_slow = [synthesized ''GPT-4o-mini'', synthesized ''Gemini-Flash'',
     synthesized ''Perplexity-Lite'']"

text \<open>The text the pipeline sends to the slower buckets.\<close>

definition compressed_of :: "env \<Rightarrow> string \<Rightarrow> string" where
  "compressed_of ev cleanedText =
     (if length cleanedText > COMPRESS_THRESHOLD then compress ev cleanedText else cleanedText)"

text \<open>The result of the FAST bucket for a text, as step 4 of the pipeline computes it.\<close>

definition fast_of :: "env \<Rightarrow> string \<Rightarrow> tier_result" where
  "fast_of ev text =
     computeBucketScore (responses (runBucket (call ev) FAST (quickClean text) None))"

text \<open>A call to a verifier of the given bucket.\<close>

fun is_call :: "bucket_name \<Rightarrow> event \<Rightarrow> bool" where
  "is_call b (VerifierCall b' m t) = (b = b')"
| "is_call b _ = False"

text \<open>A world in which every verifier answers \<^verbatim>\<open>true\<close> at 90, and one with mixed calls.\<close>

definition true_env :: env where
  "true_env = \<lparr>call = (\<lambda>b m t. Answered (Some ''true'') (Some 90)), embeddings = (\<lambda>t. None),
     compress = (\<lambda>t. t), sha256 = (\<lambda>t. t), now_exact = 1000, now_semantic_exact = 1000,
     now_semantic = 1000, now_store = 2000\<rparr>"

definition mixed_env :: env where
  "mixed_env = \<lparr>call = mixed_calls, embeddings = (\<lambda>t. None),
     compress = (\<lambda>t. t), sha256 = (\<lambda>t. t), now_exact = 1000, now_semantic_exact = 1000,
     now_semantic = 1000, now_store = 2000\<rparr>"

definition earth :: string where
  "earth = ''The Earth is approximately 4.5 billion years old''"

section \<open>Auxiliary functions\<close>

text \<open>Every run of white space becomes one space.\<close>

function collapse :: "string \<Rightarrow> string" where
  "collapse [] = []"
| "collapse (x # xs) =
     (if is_space x then CHR '' '' # collapse (dropWhile is_space xs) else x # collapse xs)"
  by pat_completeness auto
termination
  by (relation "measure length") (auto simp: length_dropWhile_le less_Suc_eq_le)

text \<open>A text with no white space at either end.\<close>

definition trimmed :: "string \<Rightarrow> bool" where
  "trimmed w = (w = [] \<or> (\<not> is_space (hd w) \<and> \<not> is_space (last w)))"

section \<open>Confidence of a bucket\<close>

text \<open>
  Claim C4, as amended. For every bucket whose responses yield a score, the confidence is
  the base (0.92 with agreement, 0.75 without) times a third of the number of responses,
  capped at 1: below the base with fewer than three responses, the base with three, and
  exactly 1 with more than three.
\<close>

theorem C4_confidence:
  assumes "t_score (computeBucketScore rs) \<noteq> None"
  shows "t_confidence (computeBucketScore rs) =
           min 1 ((if agreement (computeBucketScore rs) then 0.92 else 0.75) * (real (length rs) / 3))
       \<and> t_confidence (computeBucketScore rs) \<le> 1
       \<and> (length rs < 3 \<longrightarrow> t_confidence (computeBucketScore rs)
             < (if agreement (computeBucketScore rs) then 0.92 else 0.75))
       \<and> (length rs = 3 \<longrightarrow> t_confidence (computeBucketScore rs)
             = (if agreement (computeBucketScore rs) then 0.92 else 0.75))
       \<and> (length rs > 3 \<longrightarrow> t_confidence (computeBucketScore rs) = 1)"
proof -
  have ne: "rs \<noteq> []" using assms by (auto simp: computeBucketScore_def)
  have sc: "sp_score (computeTruthfulnessSpectrum rs) \<noteq> None"
    using assms ne by (simp add: computeBucketScore_def Let_def)
  define b :: real where "b = (if agreement (computeBucketScore rs) then 0.92 else 0.75)"
  define n :: real where "n = real (length rs)"
  have c: "t_confidence (computeBucketScore rs) = min 1 (b * (n / 3))"
    using ne sc by (simp add: computeBucketScore_def Let_def b_def n_def)
  have b_lo: "3 / 4 \<le> b" and b_hi: "b < 1" and b_pos: "0 < b" by (simp_all add: b_def)
  have n4: "1 \<le> b * (n / 3)" if "length rs > 3"
  proof -
    have "4 \<le> n" using that by (simp add: n_def)
    then have "4 / 3 \<le> n / 3" by simp
    then have "b * (4 / 3) \<le> b * (n / 3)" using b_pos by (intro mult_left_mono) simp_all
    moreover have "1 \<le> b * (4 / 3)" using b_lo by simp
    ultimately show ?thesis by linarith
  qed
  have n2: "b * (n / 3) < b" if "length rs < 3"
  proof -
    have "n \<le> 2" using that by (simp add: n_def)
    then have "n / 3 \<le> 2 / 3" by simp
    then have "b * (n / 3) \<le> b * (2 / 3)" using b_pos by (intro mult_left_mono) simp_all
    moreover have "b * (2 / 3) < b" using b_pos by simp
    ultimately show ?thesis by linarith
  qed
  have n3: "b * (n / 3) = b" if "length rs = 3" using that by (simp add: n_def)
  have p1: "min 1 (b * (n / 3)) \<le> 1" by simp
  have p2: "length rs < 3 \<longrightarrow> min 1 (b * (n / 3)) < b" using n2 b_hi by (auto simp: min_def)
  have p3: "length rs = 3 \<longrightarrow> min 1 (b * (n / 3)) = b" using n3 b_hi by (auto simp: min_def)
  have p4: "length rs > 3 \<longrightarrow> min 1 (b * (n / 3)) = 1" using n4 by (auto simp: min_def)
  show ?thesis
    unfolding c using p1 p2 p3 p4 unfolding b_def n_def by blast
qed

text \<open>Two answers in agreement: the confidence stays below the base 0.92.\<close>

theorem C4_confidence_witness:
  "t_score (computeBucketScore two_true) \<noteq> None \<and> length two_true < 3 \<and>
   t_confidence (computeBucketScore two_true) < 0.92"
proof -
  have h: "t_score (computeBucketScore two_true) \<noteq> None" by code_simp
  have a: "agreement (computeBucketScore two_true)" by code_simp
  have l: "length two_true < 3" by (simp add: two_true_def)
  show ?thesis using C4_confidence[OF h] a l h by simp
qed

text \<open>
  Four answers in agreement (the FULL bucket has four verifiers): the confidence is 1,
  above the base 0.92 that a scaling by \<open>min 1 (n / 3)\<close> would give.
\<close>

theorem C4_counterexample:
  "t_score (computeBucketScore four_true) \<noteq> None \<and> agreement (computeBucketScore four_true) \<and>
   length four_true = 4 \<and>
   t_confidence (computeBucketScore four_true) = 1 \<and>
   t_confidence (computeBucketScore four_true) \<noteq> 0.92 * min 1 (real (length four_true) / 3)"
proof -
  have 1: "t_score (computeBucketScore four_true) \<noteq> None" by code_simp
  have 2: "agreement (computeBucketScore four_true)" by code_simp
  have 3: "t_confidence (computeBucketScore four_true) = 1" by code_simp
  have 4: "length four_true = 4" by (simp add: four_true_def)
  show ?thesis using 1 2 3 4 by simp
qed

section \<open>Merging the buckets\<close>






section \<open>Agreement of a bucket\<close>

lemma coarse_range: "coarse v \<in> {0, 50, 100}"
  by (simp add: coarse_def Let_def)

lemma bucket_scores_filter:
  "bucket_scores rs = map (\<lambda>r. case verdict r of Some v \<Rightarrow> coarse v | None \<Rightarrow> 50) (filter truthy rs)"
  unfolding bucket_scores_def
  by (induction rs) (auto simp: truthy_def split: option.splits)

lemma bucket_scores_range: "set (bucket_scores rs) \<subseteq> {0, 50, 100}"
  by (auto simp: bucket_scores_filter coarse_def Let_def split: option.splits if_splits)

lemma maxScore_Max: "xs \<noteq> [] \<Longrightarrow> \<forall>x\<in>set xs. 0 \<le> x \<Longrightarrow> maxScore xs = Max (set xs)"
proof -
  assume ne: "xs \<noteq> []" and pos: "\<forall>x\<in>set xs. 0 \<le> x"
  have "maxScore xs = Max (set (0 # xs))" unfolding maxScore_def by (simp only: Max.set_eq_fold)
  also have "\<dots> = max 0 (Max (set xs))" using ne by simp
  also have "\<dots> = Max (set xs)"
  proof -
    obtain a where a: "a \<in> set xs" using ne by (cases xs) auto
    then have "a \<le> Max (set xs)" by simp
    moreover have "0 \<le> a" using pos a by blast
    ultimately have "0 \<le> Max (set xs)" by linarith
    then show ?thesis by simp
  qed
  finally show ?thesis .
qed

lemma minScore_Min: "xs \<noteq> [] \<Longrightarrow> \<forall>x\<in>set xs. x \<le> 100 \<Longrightarrow> minScore xs = Min (set xs)"
proof -
  assume ne: "xs \<noteq> []" and le: "\<forall>x\<in>set xs. x \<le> 100"
  have "minScore xs = Min (set (100 # xs))" unfolding minScore_def by (simp only: Min.set_eq_fold)
  also have "\<dots> = min 100 (Min (set xs))" using ne by simp
  also have "\<dots> = Min (set xs)"
  proof -
    obtain a where a: "a \<in> set xs" using ne by (cases xs) auto
    then have "Min (set xs) \<le> a" by simp
    moreover have "a \<le> 100" using le a by blast
    ultimately have "Min (set xs) \<le> 100" by linarith
    then show ?thesis by simp
  qed
  finally show ?thesis .
qed

lemma agreement_eq:
  "agreement (computeBucketScore rs) =
     (bucket_scores rs \<noteq> [] \<and> maxScore (bucket_scores rs) - minScore (bucket_scores rs) \<le> 30)"
  by (cases rs) (simp_all add: computeBucketScore_def Let_def bucket_scores_def)

text \<open>
  Claim C3, as amended. The agreement flag of a bucket is computed over the responses
  that carry a non-empty verdict and a confidence that is neither missing nor zero. Each
  of them is mapped to a bucket: 100 when its verdict, in lower case, contains
  \<^verbatim>\<open>true\<close>, else 0 when it contains \<^verbatim>\<open>false\<close>, else 50 (\<^verbatim>\<open>true\<close> is 100,
  \<^verbatim>\<open>false\<close> is 0, \<^verbatim>\<open>unverifiable\<close> is 50). Agreement holds if and only if at least
  one such response exists and the largest bucket exceeds the smallest by at most 30.
\<close>

theorem C3_agreement:
  "(agreement (computeBucketScore rs) \<longleftrightarrow>
      (\<exists>r\<in>set rs. truthy r) \<and>
      Max (set (bucket_scores rs)) - Min (set (bucket_scores rs)) \<le> 30)
   \<and> bucket_scores rs =
       map (\<lambda>r. case verdict r of Some v \<Rightarrow> coarse v | None \<Rightarrow> 50) (filter truthy rs)
   \<and> coarse ''true'' = 100 \<and> coarse ''false'' = 0 \<and> coarse ''unverifiable'' = 50
   \<and> (\<forall>v. \<not> str_includes (toLowerCase v) ''true'' \<and> \<not> str_includes (toLowerCase v) ''false''
          \<longrightarrow> coarse v = 50)"
proof -
  have ne: "bucket_scores rs \<noteq> [] \<longleftrightarrow> (\<exists>r\<in>set rs. truthy r)"
    by (simp add: bucket_scores_filter filter_empty_conv)
  have a: "agreement (computeBucketScore rs) \<longleftrightarrow>
      (\<exists>r\<in>set rs. truthy r) \<and>
      Max (set (bucket_scores rs)) - Min (set (bucket_scores rs)) \<le> 30"
  proof (cases "bucket_scores rs = []")
    case True
    then show ?thesis using ne by (simp add: agreement_eq)
  next
    case False
    have r: "\<forall>x\<in>set (bucket_scores rs). 0 \<le> x \<and> x \<le> 100"
      using bucket_scores_range[of rs] by auto
    show ?thesis
      using False ne r by (simp add: agreement_eq maxScore_Max minScore_Min)
  qed
  have t: "coarse ''true'' = 100" by code_simp
  have f: "coarse ''false'' = 0" by code_simp
  have u: "coarse ''unverifiable'' = 50" by code_simp
  have o: "\<forall>v. \<not> str_includes (toLowerCase v) ''true'' \<and> \<not> str_includes (toLowerCase v) ''false''
          \<longrightarrow> coarse v = 50"
    by (simp add: coarse_def Let_def)
  show ?thesis using a bucket_scores_filter t f u o by blast
qed

text \<open>Two answers \<^verbatim>\<open>true\<close> at confidence 90 agree.\<close>

theorem C3_agreement_witness:
  "agreement (computeBucketScore two_true) \<and> (\<exists>r\<in>set two_true. truthy r) \<and>
   Max (set (bucket_scores two_true)) - Min (set (bucket_scores two_true)) \<le> 30"
proof -
  have a: "agreement (computeBucketScore two_true)" by code_simp
  show ?thesis using C3_agreement[of two_true] a by blast
qed

text \<open>
  The verdicts \<^verbatim>\<open>true\<close> and \<^verbatim>\<open>false\<close> have the buckets 100 and 0, more than 30
  apart, but the second answer has confidence 0 and is not counted: the bucket agrees.
\<close>

theorem C3_counterexample:
  "map verdict split_zero = [Some ''true'', Some ''false''] \<and>
   coarse ''true'' = 100 \<and> coarse ''false'' = 0 \<and> \<not> ((100::int) - 0 \<le> 30) \<and>
   agreement (computeBucketScore split_zero)"
proof -
  have 1: "map verdict split_zero = [Some ''true'', Some ''false'']"
    by (simp add: split_zero_def answer_def)
  have 2: "coarse ''true'' = 100" by code_simp
  have 3: "coarse ''false'' = 0" by code_simp
  have 4: "agreement (computeBucketScore split_zero)" by code_simp
  show ?thesis using 1 2 3 4 by simp
qed

text \<open>
  The verdict \<^verbatim>\<open>partially_true\<close> contains \<^verbatim>\<open>true\<close>: its bucket is 100, although
  \<open>normalizeVerdict\<close> scores it 0.5, and it agrees with \<^verbatim>\<open>true\<close>.
\<close>

lemma coarse_partially_true:
  "coarse ''partially_true'' = 100 \<and> normalizeVerdict (Some ''partially_true'') = 0.5 \<and>
   agreement (computeBucketScore true_partial)"
proof -
  have 1: "coarse ''partially_true'' = 100" by code_simp
  have 2: "normalizeVerdict (Some ''partially_true'') = 0.5" by code_simp
  have 3: "agreement (computeBucketScore true_partial)" by code_simp
  show ?thesis using 1 2 3 by simp
qed

section \<open>Timeouts and failures in a bucket\<close>

lemma set_successes: "set (successes rs) = {r. Success r \<in> set rs}"
  by (induction rs rule: successes.induct) auto

lemma length_successes: "length (successes rs) \<le> length rs"
  by (induction rs rule: successes.induct) auto

lemma length_successes_less: "Failure m e \<in> set rs \<Longrightarrow> length (successes rs) < length rs"
proof (induction rs rule: successes.induct)
  case 1
  then show ?case by simp
next
  case (2 r rs)
  then show ?case by auto
next
  case (3 m' e' rs)
  have "length (successes rs) \<le> length rs" by (rule length_successes)
  then show ?case by simp
qed

lemma error_message_not_timeout: "error_message p e \<noteq> ''TIMEOUT''"
  by (cases p) (simp_all add: error_message_def)

lemma runWithTimeout_Slow: "runWithTimeout p Slow n = Success (synthesized n)"
  by (simp add: runWithTimeout_def on_error_def synthesized_def)

lemma runWithTimeout_Threw: "runWithTimeout p (Threw e) n = Failure n (error_message p e)"
  by (simp add: runWithTimeout_def on_error_def error_message_not_timeout)

lemma runWithTimeout_model: "runWithTimeout p oc n = Success r \<Longrightarrow> model r = n"
  by (cases oc) (auto simp: runWithTimeout_def on_error_def split: if_splits)

lemma distinct_names: "distinct (map name (models (MODEL_BUCKETS b)))"
  by (cases b) simp_all

lemma name_inj:
  "m \<in> set (models (MODEL_BUCKETS b)) \<Longrightarrow> m' \<in> set (models (MODEL_BUCKETS b)) \<Longrightarrow>
   name m = name m' \<Longrightarrow> m = m'"
  using distinct_names[of b] by (meson distinct_map inj_onD)

text \<open>
  Claim C5. For every verifier of a bucket: when its call is still pending at the timeout,
  \<open>runWithTimeout\<close> returns a successful response with verdict \<^verbatim>\<open>unverifiable\<close>,
  confidence 25 and \<open>timedOut\<close> set, and that response is among the responses of the
  bucket; when its call fails with an error, \<open>runWithTimeout\<close> returns a failure, no
  response of the bucket carries the name of that verifier, and the bucket has fewer
  responses than verifiers. In both cases the call yields a value, not an exception.
\<close>

theorem C5_timeout_and_error:
  assumes "m \<in> set (models (MODEL_BUCKETS b))"
  shows "(vcall b (name m) (inputText b text ct) = Slow \<longrightarrow>
            runWithTimeout (fn m) Slow (name m) = Success (synthesized (name m)) \<and>
            synthesized (name m) \<in> set (responses (runBucket vcall b text ct)))
       \<and> (\<forall>e. vcall b (name m) (inputText b text ct) = Threw e \<longrightarrow>
            runWithTimeout (fn m) (Threw e) (name m) = Failure (name m) (error_message (fn m) e) \<and>
            name m \<notin> model ` set (responses (runBucket vcall b text ct)) \<and>
            modelCount (runBucket vcall b text ct) < totalModels (runBucket vcall b text ct))"
proof -
  define f where "f = (\<lambda>m::model_desc. runWithTimeout (fn m) (vcall b (name m) (inputText b text ct)) (name m))"
  have resp: "responses (runBucket vcall b text ct) = successes (map f (models (MODEL_BUCKETS b)))"
    by (simp add: runBucket_def Let_def f_def)
  have cnt: "modelCount (runBucket vcall b text ct) = length (successes (map f (models (MODEL_BUCKETS b))))"
    by (simp add: runBucket_def Let_def f_def)
  have tot: "totalModels (runBucket vcall b text ct) = length (map f (models (MODEL_BUCKETS b)))"
    by (simp add: runBucket_def Let_def)
  have slow: "synthesized (name m) \<in> set (responses (runBucket vcall b text ct))"
    if "vcall b (name m) (inputText b text ct) = Slow"
  proof -
    have "f m = Success (synthesized (name m))" using that by (simp add: f_def runWithTimeout_Slow)
    then have "Success (synthesized (name m)) \<in> set (map f (models (MODEL_BUCKETS b)))"
      using assms by force
    then show ?thesis by (simp add: resp set_successes)
  qed
  have threw: "name m \<notin> model ` set (responses (runBucket vcall b text ct)) \<and>
            modelCount (runBucket vcall b text ct) < totalModels (runBucket vcall b text ct)"
    if t: "vcall b (name m) (inputText b text ct) = Threw e" for e
  proof -
    have fm: "f m = Failure (name m) (error_message (fn m) e)"
      using t by (simp add: f_def runWithTimeout_Threw)
    have "name m \<notin> model ` set (responses (runBucket vcall b text ct))"
    proof
      assume "name m \<in> model ` set (responses (runBucket vcall b text ct))"
      then obtain r where r0: "r \<in> set (responses (runBucket vcall b text ct))" and mr: "model r = name m"
        by force
      have r: "Success r \<in> set (map f (models (MODEL_BUCKETS b)))"
        using r0 by (simp add: resp set_successes)
      then obtain m' where m': "m' \<in> set (models (MODEL_BUCKETS b))" and fm': "f m' = Success r"
        by auto
      have a: "model r = name m'" using fm' unfolding f_def by (rule runWithTimeout_model)
      have "name m' = name m" by (rule trans[OF a[symmetric] mr])
      then have "m' = m" by (rule name_inj[OF m' assms])
      then show False using fm fm' by simp
    qed
    moreover have "Failure (name m) (error_message (fn m) e) \<in> set (map f (models (MODEL_BUCKETS b)))"
      using fm assms by force
    then have "modelCount (runBucket vcall b text ct) < totalModels (runBucket vcall b text ct)"
      unfolding cnt tot by (rule length_successes_less)
    ultimately show ?thesis by simp
  qed
  show ?thesis using slow threw by (simp add: runWithTimeout_Slow runWithTimeout_Threw)
qed

text \<open>In the FAST bucket, Gemini-Flash is slow and Perplexity-Lite fails.\<close>

theorem C5_timeout_and_error_witness:
  "synthesized ''Gemini-Flash'' \<in> set (responses (runBucket mixed_calls FAST ''the sky is green'' None)) \<and>
   ''Perplexity-Lite'' \<notin> model ` set (responses (runBucket mixed_calls FAST ''the sky is green'' None)) \<and>
   modelCount (runBucket mixed_calls FAST ''the sky is green'' None)
     < totalModels (runBucket mixed_calls FAST ''the sky is green'' None)"
proof -
  have m1: "\<lparr>name = ''Gemini-Flash'', fn = Google, weight = 1.0\<rparr> \<in> set (models (MODEL_BUCKETS FAST))"
    by simp
  have m2: "\<lparr>name = ''Perplexity-Lite'', fn = Perplexity, weight = 0.9\<rparr> \<in> set (models (MODEL_BUCKETS FAST))"
    by simp
  have s: "mixed_calls FAST ''Gemini-Flash'' (inputText FAST ''the sky is green'' None) = Slow"
    by (simp add: mixed_calls_def)
  have t: "mixed_calls FAST ''Perplexity-Lite'' (inputText FAST ''the sky is green'' None) = Threw ''fetch failed''"
    by (simp add: mixed_calls_def)
  show ?thesis
    using C5_timeout_and_error[OF m1, of mixed_calls "''the sky is green''" None]
          C5_timeout_and_error[OF m2, of mixed_calls "''the sky is green''" None] s t
    by simp
qed

section \<open>The semantic cache\<close>











section \<open>Personal and short inputs\<close>

lemma ultraSpeedCheck_personal:
  "isPersonal (detectPersonalStatement text) \<Longrightarrow>
   ultraSpeedCheck ev st text = (personal_result text (reason (detectPersonalStatement text)), [], st)"
  by (simp add: ultraSpeedCheck_def Let_def)

text \<open>
  Claim C7. For every text that the filter classifies as personal, the pipeline returns the
  result of mode \<^verbatim>\<open>personal\<close> with no score and no used model, and the request does
  nothing else: no lookup in the exact or the semantic cache, no call to a verifier, and
  the stores are left as they were.
\<close>

theorem C7_personal_short_circuit:
  assumes "isPersonal (detectPersonalStatement text)"
  shows "ultraSpeedCheck ev st text =
           (personal_result text (reason (detectPersonalStatement text)), [], st)
       \<and> mode (fst (ultraSpeedCheck ev st text)) = ''personal''
       \<and> score (fst (ultraSpeedCheck ev st text)) = None
       \<and> usedFast (fst (ultraSpeedCheck ev st text)) = []
       \<and> usedMid (fst (ultraSpeedCheck ev st text)) = []
       \<and> usedFull (fst (ultraSpeedCheck ev st text)) = []
       \<and> fst (snd (ultraSpeedCheck ev st text)) = []
       \<and> snd (snd (ultraSpeedCheck ev st text)) = st"
  using ultraSpeedCheck_personal[OF assms, of ev st] by (simp add: personal_result_def)

text \<open>The example of the specification is personal (an emotional expression).\<close>

theorem C7_personal_short_circuit_witness:
  "isPersonal (detectPersonalStatement ''I'm so happy today, my friend got me coffee'') \<and>
   mode (fst (ultraSpeedCheck slow_env one_entry ''I'm so happy today, my friend got me coffee''))
     = ''personal'' \<and>
   score (fst (ultraSpeedCheck slow_env one_entry ''I'm so happy today, my friend got me coffee''))
     = None \<and>
   fst (snd (ultraSpeedCheck slow_env one_entry ''I'm so happy today, my friend got me coffee'')) = []"
proof -
  have h: "isPersonal (detectPersonalStatement ''I'm so happy today, my friend got me coffee'')"
    by code_simp
  show ?thesis using C7_personal_short_circuit[OF h, of slow_env one_entry] h by blast
qed





section \<open>The escalation gate\<close>

lemma ultraSpeedCheck_fresh:
  assumes np: "\<not> isPersonal (detectPersonalStatement text)"
      and ex: "checkExactCache (sha256 ev) (now_exact ev) st (quickClean text) = None"
      and sm: "fst (checkSemanticCache ev st (quickClean text)) = Miss"
  shows "fst (ultraSpeedCheck ev st text) =
           fresh_result text (run_tiers (call ev) (quickClean text) (compressed_of ev (quickClean text)))"
    and "fst (snd (ultraSpeedCheck ev st text)) =
           [ExactLookup (quickClean text), SemanticLookup (quickClean text),
            EmbeddingStart (quickClean text), SourceSearch (quickClean text)]
           @ (if length (quickClean text) > COMPRESS_THRESHOLD then [Compression (quickClean text)] else [])
           @ tierEvents (run_tiers (call ev) (quickClean text) (compressed_of ev (quickClean text)))
           @ [CacheWrite (quickClean text)]"
proof -
  obtain st1 where s1: "checkSemanticCache ev st (quickClean text) = (Miss, st1)"
    using sm by (cases "checkSemanticCache ev st (quickClean text)") auto
  obtain emb st2 where g: "getEmbedding ev st1 (quickClean text) = (emb, st2)"
    by (cases "getEmbedding ev st1 (quickClean text)") auto
  show "fst (ultraSpeedCheck ev st text) =
           fresh_result text (run_tiers (call ev) (quickClean text) (compressed_of ev (quickClean text)))"
    using np by (simp add: ultraSpeedCheck_def Let_def ex s1 g compressed_of_def)
  show "fst (snd (ultraSpeedCheck ev st text)) =
           [ExactLookup (quickClean text), SemanticLookup (quickClean text),
            EmbeddingStart (quickClean text), SourceSearch (quickClean text)]
           @ (if length (quickClean text) > COMPRESS_THRESHOLD then [Compression (quickClean text)] else [])
           @ tierEvents (run_tiers (call ev) (quickClean text) (compressed_of ev (quickClean text)))
           @ [CacheWrite (quickClean text)]"
    using np by (simp add: ultraSpeedCheck_def Let_def ex s1 g compressed_of_def)
qed

lemma run_tiers_skip:
  assumes "\<not> shouldRunMidBucket (computeBucketScore (responses (runBucket vcall FAST c None)))"
  shows "run_tiers vcall c ct =
     \<lparr>fastResult = computeBucketScore (responses (runBucket vcall FAST c None)),
      midResult = None, fullResult = None,
      tierFast = map model (responses (runBucket vcall FAST c None)), tierMid = [], tierFull = [],
      skipMid = True, skipFull = True, tierEvents = calls FAST c None\<rparr>"
  using assms by (simp add: run_tiers_def Let_def)

lemma calls_is_call: "x \<in> set (calls b c ct) \<Longrightarrow> is_call b' x \<Longrightarrow> b' = b"
  by (auto simp: calls_def)

lemma calls_is_call_self: "x \<in> set (calls b c ct) \<Longrightarrow> is_call b x"
  by (auto simp: calls_def)

lemma all_slow_score:
  "t_score (computeBucketScore all_slow) = Some 35"
  "t_confidence (computeBucketScore all_slow) = 0.92"
  "agreement (computeBucketScore all_slow)"
  by code_simp+

lemma runBucket_all_slow:
  assumes "\<forall>m\<in>set (models (MODEL_BUCKETS FAST)). vcall FAST (name m) c = Slow"
  shows "responses (runBucket vcall FAST c None) = all_slow"
  using assms
  by (simp add: runBucket_def Let_def inputText_def runWithTimeout_Slow all_slow_def)


text \<open>
  Claim C9. If the request reaches the FAST bucket and every call of the bucket times out,
  the responses of the bucket are the three synthesized ones, the bucket scores 35 with
  agreement and confidence 0.92, the gate does not escalate, and the request ends with
  score 35, label \<^verbatim>\<open>FALSE\<close> and confidence 0.92, with MID and FULL skipped and none
  of their verifiers called.
\<close>

theorem C9_all_fast_timeouts:
  assumes np: "\<not> isPersonal (detectPersonalStatement text)"
      and ex: "checkExactCache (sha256 ev) (now_exact ev) st (quickClean text) = None"
      and sm: "fst (checkSemanticCache ev st (quickClean text)) = Miss"
      and slow: "\<forall>m\<in>set (models (MODEL_BUCKETS FAST)). call ev FAST (name m) (quickClean text) = Slow"
  shows "responses (runBucket (call ev) FAST (quickClean text) None) = all_slow
       \<and> t_score (fast_of ev text) = Some 35
       \<and> agreement (fast_of ev text)
       \<and> t_confidence (fast_of ev text) = 0.92
       \<and> \<not> shouldRunMidBucket (fast_of ev text)
       \<and> score (fst (ultraSpeedCheck ev st text)) = Some 35
       \<and> loraVerdict (fst (ultraSpeedCheck ev st text)) = Some ''FALSE''
       \<and> p_confidence (fst (ultraSpeedCheck ev st text)) = Some 0.92
       \<and> usedMid (fst (ultraSpeedCheck ev st text)) = []
       \<and> usedFull (fst (ultraSpeedCheck ev st text)) = []
       \<and> skippedMid (fst (ultraSpeedCheck ev st text))
       \<and> skippedFull (fst (ultraSpeedCheck ev st text))
       \<and> (\<forall>e\<in>set (fst (snd (ultraSpeedCheck ev st text))). \<not> is_call MID e \<and> \<not> is_call FULL e)"
proof -
  let ?c = "quickClean text"
  have r: "responses (runBucket (call ev) FAST ?c None) = all_slow"
    using slow by (rule runBucket_all_slow[of "call ev" "quickClean text"])
  have f: "fast_of ev text = computeBucketScore all_slow" by (simp add: fast_of_def r)
  have gate: "\<not> shouldRunMidBucket (computeBucketScore all_slow)"
    by (simp add: shouldRunMidBucket_def all_slow_score SKIP_MID_THRESHOLD_def)
  have t: "run_tiers (call ev) ?c (compressed_of ev ?c) =
     \<lparr>fastResult = computeBucketScore all_slow, midResult = None, fullResult = None,
      tierFast = map model all_slow, tierMid = [], tierFull = [],
      skipMid = True, skipFull = True, tierEvents = calls FAST ?c None\<rparr>"
    using run_tiers_skip[of "call ev" ?c "compressed_of ev ?c"] gate by (simp add: r)
  have res: "fst (ultraSpeedCheck ev st text) = fresh_result text (run_tiers (call ev) ?c (compressed_of ev ?c))"
    by (rule ultraSpeedCheck_fresh(1)[OF np ex sm])
  have m: "mergeResults (computeBucketScore all_slow) None None =
     \<lparr>m_score = Some 35, m_confidence = 0.92, m_breakdown = breakdown (computeBucketScore all_slow),
      source = ''fast''\<rparr>"
    by (simp add: mergeResults_def all_slow_score)
  have v: "getVerdictFromScore (Some 35) = ''FALSE''" by (simp add: getVerdictFromScore_def)
  have evs: "\<forall>e\<in>set (fst (snd (ultraSpeedCheck ev st text))). \<not> is_call MID e \<and> \<not> is_call FULL e"
    unfolding ultraSpeedCheck_fresh(2)[OF np ex sm] t by (auto dest: calls_is_call)
  show ?thesis
    using r evs gate by (simp add: f all_slow_score res t fresh_result_def m v)
qed

text \<open>No verifier answers in time, and the stores are empty.\<close>

theorem C9_all_fast_timeouts_witness:
  "score (fst (ultraSpeedCheck slow_env no_entries
      ''The Earth is approximately 4.5 billion years old'')) = Some 35 \<and>
   loraVerdict (fst (ultraSpeedCheck slow_env no_entries
      ''The Earth is approximately 4.5 billion years old'')) = Some ''FALSE'' \<and>
   p_confidence (fst (ultraSpeedCheck slow_env no_entries
      ''The Earth is approximately 4.5 billion years old'')) = Some 0.92 \<and>
   skippedMid (fst (ultraSpeedCheck slow_env no_entries
      ''The Earth is approximately 4.5 billion years old''))"
proof -
  have np: "\<not> isPersonal (detectPersonalStatement ''The Earth is approximately 4.5 billion years old'')"
    by code_simp
  have ex: "checkExactCache (sha256 slow_env) (now_exact slow_env) no_entries
              (quickClean ''The Earth is approximately 4.5 billion years old'') = None"
    by (simp add: checkExactCache_def no_entries_def)
  have sm: "fst (checkSemanticCache slow_env no_entries
              (quickClean ''The Earth is approximately 4.5 billion years old'')) = Miss"
    by (simp add: checkSemanticCache_def checkExactCache_def getEmbedding_def no_entries_def
        slow_env_def Let_def)
  have slow: "\<forall>m\<in>set (models (MODEL_BUCKETS FAST)). call slow_env FAST (name m)
              (quickClean ''The Earth is approximately 4.5 billion years old'') = Slow"
    by (simp add: slow_env_def)
  show ?thesis using C9_all_fast_timeouts[OF np ex sm slow] by blast
qed


lemma split_after_prefix:
  "xs @ ys = pre @ e # post \<Longrightarrow> e \<notin> set xs \<Longrightarrow> \<exists>us. pre = xs @ us"
proof (induction xs arbitrary: pre)
  case Nil
  then show ?case by simp
next
  case (Cons x xs)
  show ?case
  proof (cases pre)
    case Nil
    then show ?thesis using Cons.prems by simp
  next
    case (Cons p ps)
    then have "xs @ ys = ps @ e # post" and "p = x" using Cons.prems by simp_all
    moreover have "e \<notin> set xs" using Cons.prems by simp
    ultimately obtain us where "ps = xs @ us" using Cons.IH by blast
    then show ?thesis using Cons \<open>p = x\<close> by simp
  qed
qed

lemma calls_nonempty: "calls b c ct \<noteq> []"
  by (cases b) (simp_all add: calls_def)

lemma tierEvents_shape:
  "tierEvents (run_tiers vcall c ct) = calls FAST c None
   \<or> tierEvents (run_tiers vcall c ct) = calls FAST c None @ calls MID c (Some ct)
   \<or> tierEvents (run_tiers vcall c ct) =
        calls FAST c None @ calls MID c (Some ct) @ calls FULL c (Some ct)"
  by (simp add: run_tiers_def Let_def)

text \<open>What a request does: nothing that calls a verifier, or the steps of a fresh check.\<close>

lemma events_shape:
  "(\<forall>e\<in>set (fst (snd (ultraSpeedCheck ev st text))). \<forall>b. \<not> is_call b e)
   \<or> (\<exists>P. (\<forall>e\<in>set P. \<forall>b. \<not> is_call b e) \<and>
          fst (snd (ultraSpeedCheck ev st text)) =
            P @ tierEvents (run_tiers (call ev) (quickClean text) (compressed_of ev (quickClean text)))
              @ [CacheWrite (quickClean text)])"
proof (cases "isPersonal (detectPersonalStatement text)")
  case True
  then show ?thesis by (simp add: ultraSpeedCheck_personal)
next
  case np: False
  show ?thesis
  proof (cases "checkExactCache (sha256 ev) (now_exact ev) st (quickClean text)")
    case (Some d)
    then show ?thesis using np by (simp add: ultraSpeedCheck_def Let_def)
  next
    case ex: None
    obtain lk st1 where s1: "checkSemanticCache ev st (quickClean text) = (lk, st1)"
      by (cases "checkSemanticCache ev st (quickClean text)") auto
    show ?thesis
    proof (cases lk)
      case Miss
      then have sm: "fst (checkSemanticCache ev st (quickClean text)) = Miss" using s1 by simp
      let ?P = "[ExactLookup (quickClean text), SemanticLookup (quickClean text),
            EmbeddingStart (quickClean text), SourceSearch (quickClean text)]
           @ (if length (quickClean text) > COMPRESS_THRESHOLD then [Compression (quickClean text)] else [])"
      have "\<forall>e\<in>set ?P. \<forall>b. \<not> is_call b e" by simp
      moreover have "fst (snd (ultraSpeedCheck ev st text)) =
            ?P @ tierEvents (run_tiers (call ev) (quickClean text) (compressed_of ev (quickClean text)))
              @ [CacheWrite (quickClean text)]"
        using ultraSpeedCheck_fresh(2)[OF np ex sm] by simp
      ultimately show ?thesis by blast
    next
      case (ExactHit d)
      then show ?thesis using np ex s1 by (simp add: ultraSpeedCheck_def Let_def)
    next
      case (SemanticHit sim d t)
      then show ?thesis using np ex s1 by (simp add: ultraSpeedCheck_def Let_def)
    qed
  qed
qed


lemma full_after_mid:
  assumes P: "\<forall>e\<in>set P. \<forall>b. \<not> is_call b e"
      and evs: "evs = P @ tierEvents (run_tiers vcall c ct) @ [CacheWrite c]"
      and sp: "evs = pre @ e # post" and fu: "is_call FULL e"
  shows "\<exists>e'\<in>set pre. is_call MID e'"
proof -
  have e_in: "e \<in> set evs" using sp by simp
  have noF: "\<not> is_call FULL x" if "x \<in> set (P @ calls FAST c None @ calls MID c (Some ct))" for x
  proof
    assume f: "is_call FULL x"
    from that consider "x \<in> set P" | "x \<in> set (calls FAST c None)" | "x \<in> set (calls MID c (Some ct))"
      by auto
    then show False
    proof cases
      case 1
      then show ?thesis using P f by blast
    next
      case 2
      from calls_is_call[OF 2 f] show ?thesis by simp
    next
      case 3
      from calls_is_call[OF 3 f] show ?thesis by simp
    qed
  qed
  from tierEvents_shape[of vcall c ct]
  consider (a) "tierEvents (run_tiers vcall c ct) = calls FAST c None"
    | (b) "tierEvents (run_tiers vcall c ct) = calls FAST c None @ calls MID c (Some ct)"
    | (c) "tierEvents (run_tiers vcall c ct) =
        calls FAST c None @ calls MID c (Some ct) @ calls FULL c (Some ct)"
    by blast
  then show ?thesis
  proof cases
    case a
    then have "e \<in> set (P @ calls FAST c None @ calls MID c (Some ct)) \<or> e = CacheWrite c"
      using e_in evs by auto
    then show ?thesis using noF fu by auto
  next
    case b
    then have "e \<in> set (P @ calls FAST c None @ calls MID c (Some ct)) \<or> e = CacheWrite c"
      using e_in evs by auto
    then show ?thesis using noF fu by auto
  next
    case c
    have "(P @ calls FAST c None @ calls MID c (Some ct)) @ (calls FULL c (Some ct) @ [CacheWrite c])
            = pre @ e # post"
      using evs sp c by simp
    moreover have "e \<notin> set (P @ calls FAST c None @ calls MID c (Some ct))" using noF fu by blast
    ultimately have "\<exists>us. pre = (P @ calls FAST c None @ calls MID c (Some ct)) @ us"
      by (rule split_after_prefix)
    then obtain us where pre: "pre = (P @ calls FAST c None @ calls MID c (Some ct)) @ us" ..
    obtain x where x: "x \<in> set (calls MID c (Some ct))"
      using calls_nonempty[of MID c "Some ct"] by (cases "calls MID c (Some ct)") auto
    then have "is_call MID x" by (rule calls_is_call_self)
    moreover have "x \<in> set pre" using x pre by simp
    ultimately show ?thesis by blast
  qed
qed


text \<open>
  Claim C1. For a request that reaches the FAST bucket, if the FAST result has confidence at
  least 0.88 and agreement, then no verifier of MID or FULL is called, the lists of used
  MID and FULL models are empty and both buckets are marked skipped. For every request,
  each call to a FULL verifier comes after a call to a MID verifier; so a request without
  a MID call has no FULL call.
\<close>

theorem C1_escalation:
  "(\<not> isPersonal (detectPersonalStatement text) \<and>
    checkExactCache (sha256 ev) (now_exact ev) st (quickClean text) = None \<and>
    fst (checkSemanticCache ev st (quickClean text)) = Miss \<and>
    0.88 \<le> t_confidence (fast_of ev text) \<and> agreement (fast_of ev text) \<longrightarrow>
      usedMid (fst (ultraSpeedCheck ev st text)) = [] \<and>
      usedFull (fst (ultraSpeedCheck ev st text)) = [] \<and>
      skippedMid (fst (ultraSpeedCheck ev st text)) \<and>
      skippedFull (fst (ultraSpeedCheck ev st text)) \<and>
      (\<forall>e\<in>set (fst (snd (ultraSpeedCheck ev st text))). \<not> is_call MID e \<and> \<not> is_call FULL e))
   \<and> (\<forall>pre e post. fst (snd (ultraSpeedCheck ev st text)) = pre @ e # post \<and> is_call FULL e \<longrightarrow>
        (\<exists>e'\<in>set pre. is_call MID e'))
   \<and> ((\<forall>e\<in>set (fst (snd (ultraSpeedCheck ev st text))). \<not> is_call MID e) \<longrightarrow>
        (\<forall>e\<in>set (fst (snd (ultraSpeedCheck ev st text))). \<not> is_call FULL e))"
proof -
  let ?evs = "fst (snd (ultraSpeedCheck ev st text))"
  let ?c = "quickClean text"
  have A: "usedMid (fst (ultraSpeedCheck ev st text)) = [] \<and>
      usedFull (fst (ultraSpeedCheck ev st text)) = [] \<and>
      skippedMid (fst (ultraSpeedCheck ev st text)) \<and>
      skippedFull (fst (ultraSpeedCheck ev st text)) \<and>
      (\<forall>e\<in>set ?evs. \<not> is_call MID e \<and> \<not> is_call FULL e)"
    if np: "\<not> isPersonal (detectPersonalStatement text)"
      and ex: "checkExactCache (sha256 ev) (now_exact ev) st ?c = None"
      and sm: "fst (checkSemanticCache ev st ?c) = Miss"
      and cf: "0.88 \<le> t_confidence (fast_of ev text)" and ag: "agreement (fast_of ev text)"
  proof -
    have gate: "\<not> shouldRunMidBucket (computeBucketScore (responses (runBucket (call ev) FAST ?c None)))"
      using cf ag by (simp add: shouldRunMidBucket_def SKIP_MID_THRESHOLD_def fast_of_def)
    note t = run_tiers_skip[OF gate, of "compressed_of ev ?c"]
    have res: "fst (ultraSpeedCheck ev st text) =
        fresh_result text (run_tiers (call ev) ?c (compressed_of ev ?c))"
      by (rule ultraSpeedCheck_fresh(1)[OF np ex sm])
    have evs: "\<forall>e\<in>set ?evs. \<not> is_call MID e \<and> \<not> is_call FULL e"
      unfolding ultraSpeedCheck_fresh(2)[OF np ex sm] t by (auto dest: calls_is_call)
    show ?thesis using evs by (simp add: res t fresh_result_def Let_def)
  qed
  have B: "\<exists>e'\<in>set pre. is_call MID e'"
    if sp: "?evs = pre @ e # post" and fu: "is_call FULL e" for pre e post
  proof -
    from events_shape[of ev st "text"]
    consider (none) "\<forall>e\<in>set ?evs. \<forall>b. \<not> is_call b e"
      | (fresh) P where "\<forall>e\<in>set P. \<forall>b. \<not> is_call b e"
          "?evs = P @ tierEvents (run_tiers (call ev) ?c (compressed_of ev ?c)) @ [CacheWrite ?c]"
      by blast
    then show ?thesis
    proof cases
      case none
      moreover have "e \<in> set ?evs" using sp by simp
      ultimately show ?thesis using fu by blast
    next
      case fresh
      show ?thesis by (rule full_after_mid[OF fresh(1) fresh(2) sp fu])
    qed
  qed
  have C: "\<forall>e\<in>set ?evs. \<not> is_call FULL e" if nm: "\<forall>e\<in>set ?evs. \<not> is_call MID e"
  proof
    fix e assume e: "e \<in> set ?evs"
    show "\<not> is_call FULL e"
    proof
      assume fu: "is_call FULL e"
      obtain pre post where sp: "?evs = pre @ e # post" using e by (meson split_list)
      from B[OF sp fu] obtain e' where "e' \<in> set pre" "is_call MID e'" by blast
      then show False using nm sp by auto
    qed
  qed
  show ?thesis using A B C by blast
qed


text \<open>
  With unanimous answers the FAST bucket has confidence 0.92 and MID and FULL do not run;
  with mixed calls the request reaches the FULL bucket, after the MID calls.
\<close>

lemma earth_clean: "quickClean earth = earth" by code_simp

theorem C1_escalation_witness:
  "usedMid (fst (ultraSpeedCheck true_env no_entries earth)) = [] \<and>
   usedFull (fst (ultraSpeedCheck true_env no_entries earth)) = [] \<and>
   filter (\<lambda>e. is_call MID e \<or> is_call FULL e)
     (fst (snd (ultraSpeedCheck true_env no_entries earth))) = [] \<and>
   (\<exists>e'\<in>set ([ExactLookup earth, SemanticLookup earth, EmbeddingStart earth, SourceSearch earth]
               @ calls FAST earth None @ calls MID earth (Some earth)). is_call MID e')"
proof -
  have np: "\<not> isPersonal (detectPersonalStatement earth)" by code_simp
  have ex: "checkExactCache (sha256 true_env) (now_exact true_env) no_entries (quickClean earth) = None"
    by (simp add: checkExactCache_def no_entries_def)
  have sm: "fst (checkSemanticCache true_env no_entries (quickClean earth)) = Miss"
    by (simp add: checkSemanticCache_def checkExactCache_def getEmbedding_def no_entries_def
        true_env_def Let_def)
  have cf: "0.88 \<le> t_confidence (fast_of true_env earth)" by code_simp
  have ag: "agreement (fast_of true_env earth)" by code_simp
  have ex': "checkExactCache (sha256 mixed_env) (now_exact mixed_env) no_entries (quickClean earth) = None"
    by (simp add: checkExactCache_def no_entries_def)
  have sm': "fst (checkSemanticCache mixed_env no_entries (quickClean earth)) = Miss"
    by (simp add: checkSemanticCache_def checkExactCache_def getEmbedding_def no_entries_def
        mixed_env_def Let_def)
  have te: "tierEvents (run_tiers mixed_calls earth earth) =
      calls FAST earth None @ calls MID earth (Some earth) @ calls FULL earth (Some earth)"
    by code_simp
  have len: "\<not> length earth > COMPRESS_THRESHOLD" by code_simp
  have cm: "compressed_of mixed_env earth = earth" using len by (simp add: compressed_of_def)
  have cl: "call mixed_env = mixed_calls" by (simp add: mixed_env_def)
  obtain e post where ep: "calls FULL earth (Some earth) @ [CacheWrite earth] = e # post"
    and fu: "is_call FULL e"
    by (simp add: calls_def)
  have "fst (snd (ultraSpeedCheck mixed_env no_entries earth)) =
      [ExactLookup earth, SemanticLookup earth, EmbeddingStart earth, SourceSearch earth]
      @ (calls FAST earth None @ calls MID earth (Some earth) @ calls FULL earth (Some earth))
      @ [CacheWrite earth]"
    using ultraSpeedCheck_fresh(2)[OF np ex' sm'] len unfolding earth_clean cm cl te by simp
  then have evs: "fst (snd (ultraSpeedCheck mixed_env no_entries earth)) =
      ([ExactLookup earth, SemanticLookup earth, EmbeddingStart earth, SourceSearch earth]
         @ calls FAST earth None @ calls MID earth (Some earth)) @ e # post"
    using ep by simp
  have "usedMid (fst (ultraSpeedCheck true_env no_entries earth)) = [] \<and>
   usedFull (fst (ultraSpeedCheck true_env no_entries earth)) = [] \<and>
   (\<forall>e\<in>set (fst (snd (ultraSpeedCheck true_env no_entries earth))).
      \<not> is_call MID e \<and> \<not> is_call FULL e) \<and>
   (\<exists>e'\<in>set ([ExactLookup earth, SemanticLookup earth, EmbeddingStart earth, SourceSearch earth]
               @ calls FAST earth None @ calls MID earth (Some earth)). is_call MID e')"
    using C1_escalation[of earth true_env no_entries] np ex sm cf ag
      C1_escalation[of earth mixed_env no_entries] evs fu
    by blast
  then show ?thesis by (simp add: filter_empty_conv)
qed

section \<open>Idempotence of the normalization\<close>

lemma run_pred_yes: "p x \<Longrightarrow> run ci (Pred p) (pv, x # xs, g) = [(Some x, xs, g)]"
  by (simp add: run.simps(2) rest_def)

lemma run_pred_no: "\<not> p x \<Longrightarrow> run ci (Pred p) (pv, x # xs, g) = []"
  by (simp add: run.simps(2) rest_def)

lemma run_pred_nil: "run ci (Pred p) (pv, [], g) = []"
  by (simp add: run.simps(2) rest_def)

lemma run_star_pred_yes:
  "p x \<Longrightarrow> run ci (Star (Pred p)) (pv, x # xs, g) =
     run ci (Star (Pred p)) (Some x, xs, g) @ [(pv, x # xs, g)]"
  by (subst run.simps(6)) (simp add: run_pred_yes rest_def)

lemma run_star_pred_no:
  "\<not> p x \<Longrightarrow> run ci (Star (Pred p)) (pv, x # xs, g) = [(pv, x # xs, g)]"
  by (subst run.simps(6)) (simp add: run_pred_no)

lemma run_star_pred_nil: "run ci (Star (Pred p)) (pv, [], g) = [(pv, [], g)]"
  by (subst run.simps(6)) (simp add: run_pred_nil)

lemma run_star_pred:
  "run ci (Star (Pred p)) (pv, s, g) \<noteq> [] \<and>
   rest (hd (run ci (Star (Pred p)) (pv, s, g))) = dropWhile p s"
proof (induction s arbitrary: pv)
  case Nil
  show ?case by (simp add: run_star_pred_nil rest_def)
next
  case (Cons x xs)
  show ?case
  proof (cases "p x")
    case True
    show ?thesis using Cons[of "Some x"] True by (simp add: run_star_pred_yes)
  next
    case False
    then show ?thesis by (simp add: run_star_pred_no rest_def)
  qed
qed

lemma run_plus_pred_nil: "run ci (Plus (Pred p)) (pv, [], g) = []"
  by (simp add: Plus_def run.simps(4) run_pred_nil)

lemma run_plus_pred_no: "\<not> p x \<Longrightarrow> run ci (Plus (Pred p)) (pv, x # xs, g) = []"
  by (simp add: Plus_def run.simps(4) run_pred_no)

lemma run_plus_pred_yes:
  assumes "p x"
  shows "run ci (Plus (Pred p)) (pv, x # xs, g) \<noteq> [] \<and>
         rest (hd (run ci (Plus (Pred p)) (pv, x # xs, g))) = dropWhile p xs"
proof -
  have "run ci (Plus (Pred p)) (pv, x # xs, g) = run ci (Star (Pred p)) (Some x, xs, g)"
    using assms by (simp add: Plus_def run.simps(4) run_pred_yes)
  then show ?thesis using run_star_pred[of ci p "Some x" xs g] by simp
qed

lemma replace_spaces:
  "replace_from ci (Plus (Pred is_space)) (Txt '' '') pv s = collapse s"
proof (induction s arbitrary: pv rule: collapse.induct)
  case 1
  show ?case by (subst replace_from.simps) (simp add: run_plus_pred_nil)
next
  case (2 x xs)
  show ?case
  proof (cases "is_space x")
    case True
    note y = run_plus_pred_yes[of is_space x ci pv xs None, OF True]
    obtain c cs where r: "run ci (Plus (Pred is_space)) (pv, x # xs, None) = c # cs"
      using y by (cases "run ci (Plus (Pred is_space)) (pv, x # xs, None)") auto
    have rc: "rest c = dropWhile is_space xs" using y r by simp
    have lt: "length (rest c) < Suc (length xs)"
      unfolding rc by (simp add: length_dropWhile_le less_Suc_eq_le)
    have "replace_from ci (Plus (Pred is_space)) (Txt '' '') pv (x # xs) =
            '' '' @ replace_from ci (Plus (Pred is_space)) (Txt '' '') (fst c) (rest c)"
      by (subst replace_from.simps) (simp add: r lt)
    then show ?thesis using True 2(1)[OF True, of "fst c"] by (simp add: rc)
  next
    case False
    have "replace_from ci (Plus (Pred is_space)) (Txt '' '') pv (x # xs) =
            x # replace_from ci (Plus (Pred is_space)) (Txt '' '') (Some x) xs"
      by (subst replace_from.simps) (simp add: run_plus_pred_no[of is_space x, OF False])
    then show ?thesis using False 2(2)[OF False, of "Some x"] by simp
  qed
qed


lemma is_space_lower [simp]: "is_space (lower_char c) = is_space c"
  by (auto simp: is_space_def lower_char_def code_def Let_def)

lemma lower_lower [simp]: "lower_char (lower_char c) = lower_char c"
  by (auto simp: lower_char_def code_def Let_def)

lemma is_space_blank [simp]: "is_space CHR '' ''"
  by (simp add: is_space_def code_def)

lemma is_space_o_lower: "is_space \<circ> lower_char = is_space"
  by (rule ext) simp

lemma lower_dropWhile:
  "dropWhile is_space (map lower_char xs) = map lower_char (dropWhile is_space xs)"
  by (simp add: dropWhile_map is_space_o_lower)

lemma lower_blank [simp]: "lower_char CHR '' '' = CHR '' ''"
  by (simp add: lower_char_def code_def)

lemma lower_collapse: "toLowerCase (collapse s) = collapse (toLowerCase s)"
  unfolding toLowerCase_def
  by (induction s rule: collapse.induct) (simp_all add: lower_dropWhile)

lemma lower_trim: "toLowerCase (trim s) = trim (toLowerCase s)"
  by (simp add: toLowerCase_def trim_def rev_map lower_dropWhile)

lemma lower_idem: "toLowerCase (toLowerCase s) = toLowerCase s"
  by (simp add: toLowerCase_def)

lemma last_dropWhile: "dropWhile P xs \<noteq> [] \<Longrightarrow> last (dropWhile P xs) = last xs"
  by (induction xs) auto

lemma trimmed_trim: "trimmed (trim s)"
proof -
  define t where "t = dropWhile is_space s"
  define u where "u = dropWhile is_space (rev t)"
  have tr: "trim s = rev u" by (simp add: trim_def t_def u_def)
  show ?thesis
  proof (cases "u = []")
    case True
    then show ?thesis by (simp add: tr trimmed_def)
  next
    case False
    then have hu: "\<not> is_space (hd u)" unfolding u_def by (rule hd_dropWhile)
    have lu: "last u = last (rev t)" using False unfolding u_def by (rule last_dropWhile)
    have tne: "t \<noteq> []" using False by (auto simp: u_def)
    then have "\<not> is_space (hd t)" unfolding t_def by (rule hd_dropWhile)
    then have "\<not> is_space (last u)" using lu tne by (simp add: last_rev)
    then show ?thesis using hu False by (simp add: tr trimmed_def hd_rev last_rev)
  qed
qed

lemma trim_trimmed: "trimmed w \<Longrightarrow> trim w = w"
proof (cases w)
  case Nil
  then show ?thesis by (simp add: trim_def)
next
  case (Cons x xs)
  assume "trimmed w"
  then have h: "\<not> is_space x" and l: "\<not> is_space (last w)" using Cons by (simp_all add: trimmed_def)
  have 1: "dropWhile is_space w = w" using h Cons by simp
  have "hd (rev w) = last w" using Cons by (simp add: hd_rev)
  then have 2: "dropWhile is_space (rev w) = rev w"
    using l Cons by (cases "rev w") auto
  show ?thesis by (simp add: trim_def 1 2)
qed

lemma collapse_Nil_iff: "collapse s = [] \<longleftrightarrow> s = []"
  by (cases s) auto

lemma collapse_last: "s \<noteq> [] \<Longrightarrow> \<not> is_space (last s) \<Longrightarrow> last (collapse s) = last s"
proof (induction s rule: collapse.induct)
  case 1
  then show ?case by simp
next
  case (2 x xs)
  show ?case
  proof (cases "is_space x")
    case True
    then have ne: "xs \<noteq> []" using 2(4) by auto
    then have lx: "last (x # xs) = last xs" by simp
    have "last xs \<in> set xs" using ne by simp
    then have dne: "dropWhile is_space xs \<noteq> []" using 2(4) lx by auto
    then have ld: "last (dropWhile is_space xs) = last xs" by (rule last_dropWhile)
    have "last (collapse (dropWhile is_space xs)) = last (dropWhile is_space xs)"
      using 2(1)[OF True dne] 2(4) lx ld by simp
    moreover have "collapse (dropWhile is_space xs) \<noteq> []" using dne by (simp add: collapse_Nil_iff)
    ultimately show ?thesis using True lx ld by simp
  next
    case False
    show ?thesis
    proof (cases "xs = []")
      case True
      then show ?thesis using False by simp
    next
      case ne: False
      then have "last (collapse xs) = last xs" using 2(2)[OF False ne] 2(4) by simp
      then show ?thesis using False ne by (simp add: collapse_Nil_iff)
    qed
  qed
qed

lemma collapse_trimmed: "trimmed w \<Longrightarrow> trimmed (collapse w)"
proof (cases w)
  case Nil
  then show ?thesis by (simp add: trimmed_def)
next
  case (Cons x xs)
  assume "trimmed w"
  then have h: "\<not> is_space x" and l: "\<not> is_space (last w)" using Cons by (simp_all add: trimmed_def)
  have "last (collapse w) = last w" using l Cons by (intro collapse_last) simp_all
  moreover have "hd (collapse w) = x" using h Cons by simp
  ultimately show ?thesis using h l by (simp add: trimmed_def)
qed

lemma dropWhile_collapse:
  "s = [] \<or> \<not> is_space (hd s) \<Longrightarrow> dropWhile is_space (collapse s) = collapse s"
  by (cases s) auto

lemma collapse_idem: "collapse (collapse s) = collapse s"
proof (induction s rule: collapse.induct)
  case 1
  show ?case by simp
next
  case (2 x xs)
  show ?case
  proof (cases "is_space x")
    case True
    let ?t = "dropWhile is_space xs"
    have "?t = [] \<or> \<not> is_space (hd ?t)" using hd_dropWhile[of is_space xs] by blast
    then have "dropWhile is_space (collapse ?t) = collapse ?t" by (rule dropWhile_collapse)
    then show ?thesis using True 2(1)[OF True] by simp
  next
    case False
    then show ?thesis using 2(2)[OF False] by simp
  qed
qed

lemma normalize_collapse: "normalize t = collapse (trim (toLowerCase t))"
  by (simp add: normalize_def replace_all_def replace_spaces)

text \<open>
  Claim C8, as amended. The normalization applied before cache keying (lower case, trim,
  every run of white space collapsed to one space, as in \<open>hashText\<close>) is idempotent, and
  a text and its normal form have the same cache key. \<open>quickClean\<close> is not covered.
\<close>

theorem C8_normalize_idempotent:
  "normalize (normalize t) = normalize t \<and>
   hashText sha (normalize t) = hashText sha t"
proof -
  let ?v = "trim (toLowerCase t)"
  have tv: "trimmed ?v" by (rule trimmed_trim)
  have "toLowerCase (collapse ?v) = collapse ?v"
    by (simp add: lower_collapse lower_trim lower_idem)
  moreover have "trim (collapse ?v) = collapse ?v"
    by (rule trim_trimmed[OF collapse_trimmed[OF tv]])
  ultimately have "normalize (normalize t) = normalize t"
    by (simp add: normalize_collapse collapse_idem)
  then show ?thesis by (simp add: hashText_def)
qed

text \<open>A text with capitals and runs of spaces.\<close>

theorem C8_normalize_idempotent_witness:
  "normalize ''  Hello   World  '' = ''hello world'' \<and>
   normalize (normalize ''  Hello   World  '') = normalize ''  Hello   World  ''"
proof -
  have "normalize ''  Hello   World  '' = ''hello world''" by code_simp
  then show ?thesis using C8_normalize_idempotent[of "''  Hello   World  ''"] by simp
qed

text \<open>
  \<open>quickClean\<close> removes one repetition of a word per pass: cleaning
  \<^verbatim>\<open>very very very\<close> gives \<^verbatim>\<open>very very\<close>, and cleaning that gives \<^verbatim>\<open>very\<close>.
\<close>

theorem C8_counterexample:
  "quickClean ''very very very'' = ''very very'' \<and>
   quickClean (quickClean ''very very very'') = ''very'' \<and>
   quickClean (quickClean ''very very very'') \<noteq> quickClean ''very very very''"
proof -
  have 1: "quickClean ''very very very'' = ''very very''" by code_simp
  have 2: "quickClean ''very very'' = ''very''" by code_simp
  show ?thesis by (simp add: 1 2)
qed

end
